theory Spec2Isabelle
  imports Complex_Main "HOL-Library.Word" "HOL-Library.Signed_Division"
    "HOL-Library.Sublist" "HOL-Library.Multiset"
begin

section \<open>The host: what the probes read\<close>

text \<open>
  The monitors read two things from the host: the rows printed by the GPU query tool and
  the per-core utilisation computed from two readings of the statistics file. Both change
  from one reading to the next, so the host answers by the number of readings taken so far.

  \<open>NoOutput\<close> is the case in which \<open>executeNvidiaSmi\<close> returns the empty string: the
  tool cannot be started, exits with a non-zero status, or prints nothing. \<open>Rows\<close> holds
  the triples (index, memory used, memory total) of the well-formed lines of a non-empty
  output. A utilisation is a double in the source; it is a real here (no NaN), and the
  value \<open>-1\<close> is the error sentinel of \<open>getCPUUtilization\<close>. A C++ \<open>int\<close> is an
  \<open>int\<close> here, a \<open>size_t\<close> or \<open>uint64_t\<close> a 64-bit word.
\<close>

datatype smi_reply = NoOutput | Rows "(int \<times> 64 word \<times> 64 word) list"

record host =
  nvidia_smi :: "nat \<Rightarrow> smi_reply"
  proc_stat_util :: "nat \<Rightarrow> int \<Rightarrow> real"

section \<open>GPU monitor (gpu_monitor.cpp)\<close>

record GPUInfo =
  device_id :: int
  memory_used_mb :: "64 word"
  memory_total_mb :: "64 word"
  is_busy :: bool
  is_allocated :: bool

record GPUMonitor =
  memory_threshold_mb :: "64 word"
  total_gpus :: int
  allocated_gpus :: "int set"
  gpu_mock_mode :: bool
  mock_data :: "GPUInfo list"
  smi_calls :: nat

definition executeNvidiaSmi :: "host \<Rightarrow> GPUMonitor \<Rightarrow> smi_reply \<times> GPUMonitor" where
  "executeNvidiaSmi h gm =
     (nvidia_smi h (smi_calls gm), gm\<lparr>smi_calls := Suc (smi_calls gm)\<rparr>)"

definition parseNvidiaSmiOutput :: "GPUMonitor \<Rightarrow> smi_reply \<Rightarrow> GPUInfo list" where
  "parseNvidiaSmiOutput gm output =
     (case output of
        NoOutput \<Rightarrow> []
      | Rows rs \<Rightarrow>
          map (\<lambda>(d, used, total).
                 \<lparr>device_id = d, memory_used_mb = used, memory_total_mb = total,
                  is_busy = (used > memory_threshold_mb gm),
                  is_allocated = (d \<in> allocated_gpus gm)\<rparr>) rs)"

definition queryGPUs :: "host \<Rightarrow> GPUMonitor \<Rightarrow> GPUInfo list \<times> GPUMonitor" where
  "queryGPUs h gm =
     (if gpu_mock_mode gm then
        (map (\<lambda>gpu. gpu\<lparr>is_busy := (memory_used_mb gpu > memory_threshold_mb gm),
                         is_allocated := (device_id gpu \<in> allocated_gpus gm)\<rparr>)
             (mock_data gm), gm)
      else
        (let (output, gm') = executeNvidiaSmi h gm in
         if output = NoOutput then
           (map (\<lambda>i. \<lparr>device_id = i,
                       memory_used_mb = memory_threshold_mb gm' + 1,
                       memory_total_mb = 0,
                       is_busy = True,
                       is_allocated = (i \<in> allocated_gpus gm')\<rparr>)
                (map int [0..<nat (total_gpus gm')]), gm')
         else
           (map (\<lambda>gpu. gpu\<lparr>is_allocated := (device_id gpu \<in> allocated_gpus gm')\<rparr>)
                (parseNvidiaSmiOutput gm' output), gm')))"

definition isGPUBusy :: "host \<Rightarrow> int \<Rightarrow> GPUMonitor \<Rightarrow> bool \<times> GPUMonitor" where
  "isGPUBusy h dev gm =
     (if dev \<in> allocated_gpus gm then (True, gm)
      else if gpu_mock_mode gm then
        (case find (\<lambda>gpu. device_id gpu = dev) (mock_data gm) of
           Some gpu \<Rightarrow> (memory_used_mb gpu > memory_threshold_mb gm, gm)
         | None \<Rightarrow> (True, gm))
      else
        (let (output, gm') = executeNvidiaSmi h gm;
             infos = parseNvidiaSmiOutput gm' output
         in case find (\<lambda>gpu. device_id gpu = dev) infos of
              Some gpu \<Rightarrow> (is_busy gpu, gm')
            | None \<Rightarrow> (True, gm')))"

definition getAvailableGPUs :: "host \<Rightarrow> GPUMonitor \<Rightarrow> int list \<times> GPUMonitor" where
  "getAvailableGPUs h gm =
     (let (infos, gm') = queryGPUs h gm in
      (filter (\<lambda>i. case find (\<lambda>gpu. device_id gpu = i) infos of
                      Some gpu \<Rightarrow> \<not> is_busy gpu \<and> \<not> is_allocated gpu
                    | None \<Rightarrow> i \<notin> allocated_gpus gm')
              (map int [0..<nat (total_gpus gm')]), gm'))"

text \<open>
  \<open>mon_allocateGPUs\<close> is \<open>GPUMonitor::allocateGPUs\<close>, which marks ids as reserved; the
  name \<open>allocateGPUs\<close> is kept for \<open>ResourceMonitor::allocateGPUs\<close>, which selects them.
\<close>

definition mon_allocateGPUs :: "int list \<Rightarrow> GPUMonitor \<Rightarrow> GPUMonitor" where
  "mon_allocateGPUs gpu_ids gm =
     gm\<lparr>allocated_gpus := fold insert gpu_ids (allocated_gpus gm)\<rparr>"

definition releaseGPUs :: "int list \<Rightarrow> GPUMonitor \<Rightarrow> GPUMonitor" where
  "releaseGPUs gpu_ids gm =
     gm\<lparr>allocated_gpus := fold (\<lambda>i s. s - {i}) gpu_ids (allocated_gpus gm)\<rparr>"

section \<open>CPU monitor (cpu_monitor.cpp)\<close>

record CPUMonitor =
  util_threshold :: real
  total_cpus :: int
  check_duration_ms :: int
  check_interval_ms :: int
  allocated_cpus :: "int set"
  cpu_mock_mode :: bool
  mock_utilization :: "(int \<times> real) list"
  samples_taken :: nat

definition getAffinityGroup :: "int \<Rightarrow> int" where
  "getAffinityGroup gpu_id = (if gpu_id < 4 then 1 else 2)"

definition getCPURangeForGroup :: "int \<Rightarrow> int \<times> int" where
  "getCPURangeForGroup affinity_group =
     (if affinity_group = 1 then (0, 32)
      else if affinity_group = 2 then (32, 64)
      else (0, 64))"

text \<open>
  One call of \<open>getCPUUtilization\<close> is one sample; \<open>samples_taken\<close> counts the calls.
  Outside mock mode the value is the host's answer for this reading.
\<close>

definition getCPUUtilization :: "host \<Rightarrow> int \<Rightarrow> CPUMonitor \<Rightarrow> real \<times> CPUMonitor" where
  "getCPUUtilization h core_id m =
     ((if cpu_mock_mode m then
         (case map_of (mock_utilization m) core_id of Some u \<Rightarrow> u | None \<Rightarrow> 0)
       else proc_stat_util h (samples_taken m) core_id),
      m\<lparr>samples_taken := Suc (samples_taken m)\<rparr>)"

text \<open>The loop of \<open>checkCPUAvailable\<close>, by the number of checks still to make.\<close>

fun check_loop :: "host \<Rightarrow> int \<Rightarrow> nat \<Rightarrow> CPUMonitor \<Rightarrow> bool \<times> CPUMonitor" where
  "check_loop h core_id 0 m = (True, m)"
| "check_loop h core_id (Suc n) m =
     (let (util, m') = getCPUUtilization h core_id m in
      if util < 0 \<or> util \<ge> util_threshold m' then (False, m')
      else check_loop h core_id n m')"

text \<open>
  \<open>check_duration_ms / check_interval_ms\<close> is a division of two C++ ints: it truncates
  towards zero, and it is undefined for a zero divisor and for \<open>INT_MIN / -1\<close>. The
  result \<open>None\<close> stands for these two cases.
\<close>

definition checkCPUAvailable :: "host \<Rightarrow> int \<Rightarrow> CPUMonitor \<Rightarrow> (bool \<times> CPUMonitor) option" where
  "checkCPUAvailable h core_id m =
     (if core_id \<in> allocated_cpus m then Some (False, m)
      else if check_interval_ms m = 0
              \<or> (check_duration_ms m = - (2 ^ 31) \<and> check_interval_ms m = - 1) then None
      else
        (let check_count = check_duration_ms m sdiv check_interval_ms m;
             check_count = (if check_count < 1 then 1 else check_count)
         in Some (check_loop h core_id (nat check_count) m)))"

definition getAvailableCPUs :: "int \<Rightarrow> CPUMonitor \<Rightarrow> int list" where
  "getAvailableCPUs affinity_group m =
     (let (start, stop) = getCPURangeForGroup affinity_group;
          stop = min stop (total_cpus m)
      in filter (\<lambda>i. i \<notin> allocated_cpus m) [start..stop - 1])"

text \<open>
  \<open>mon_allocateCPUs\<close> is \<open>CPUMonitor::allocateCPUs\<close>; the name \<open>allocateCPUs\<close> is kept
  for \<open>ResourceMonitor::allocateCPUs\<close>.
\<close>

definition mon_allocateCPUs :: "int list \<Rightarrow> CPUMonitor \<Rightarrow> CPUMonitor" where
  "mon_allocateCPUs cpu_ids m =
     m\<lparr>allocated_cpus := fold insert cpu_ids (allocated_cpus m)\<rparr>"

definition releaseCPUs :: "int list \<Rightarrow> CPUMonitor \<Rightarrow> CPUMonitor" where
  "releaseCPUs cpu_ids m =
     m\<lparr>allocated_cpus := fold (\<lambda>i s. s - {i}) cpu_ids (allocated_cpus m)\<rparr>"

section \<open>Resource monitor (resource_monitor.cpp)\<close>

record AllocationResult =
  cpus :: "int list"
  gpus :: "int list"

text \<open>
  \<open>rng\<close> is the state of the random generator: the numbers it will produce next.
  \<open>std::shuffle\<close> leaves the order to the library; here each draw picks the next element
  among those that remain, so that every order can come out and the result is always a
  rearrangement of the candidates.
\<close>

record ResourceMonitor =
  gpu_monitor :: GPUMonitor
  cpu_monitor :: CPUMonitor
  excluded_cpus :: "int set"
  excluded_gpus :: "int set"
  rng :: "nat list"

fun pick_order :: "nat \<Rightarrow> nat list \<Rightarrow> int list \<Rightarrow> int list" where
  "pick_order 0 draws xs = []"
| "pick_order (Suc n) draws xs =
     (if xs = [] then []
      else
        (let k = (case draws of [] \<Rightarrow> 0 | d # _ \<Rightarrow> d mod length xs)
         in xs ! k # pick_order n (tl draws) (take k xs @ drop (Suc k) xs)))"

definition shuffle :: "int list \<Rightarrow> ResourceMonitor \<Rightarrow> int list \<times> ResourceMonitor" where
  "shuffle candidates rm =
     (pick_order (length candidates) (rng rm) candidates,
      rm\<lparr>rng := drop (length candidates) (rng rm)\<rparr>)"

text \<open>The verification loop over explicitly requested GPUs: stop at the first busy one.\<close>

fun any_gpu_busy :: "host \<Rightarrow> int list \<Rightarrow> GPUMonitor \<Rightarrow> bool \<times> GPUMonitor" where
  "any_gpu_busy h [] gm = (False, gm)"
| "any_gpu_busy h (g # gs) gm =
     (let (busy, gm') = isGPUBusy h g gm in
      if busy then (True, gm') else any_gpu_busy h gs gm')"

text \<open>The selection loop over the available GPUs, in their order.\<close>

fun select_gpus :: "int set \<Rightarrow> int \<Rightarrow> int list \<Rightarrow> int list \<Rightarrow> int list" where
  "select_gpus excl ngpu [] allocated = allocated"
| "select_gpus excl ngpu (g # gs) allocated =
     (if g \<in> excl then select_gpus excl ngpu gs allocated
      else if int (length allocated) \<ge> ngpu then allocated
      else select_gpus excl ngpu gs (allocated @ [g]))"

definition allocateGPUs :: "host \<Rightarrow> int \<Rightarrow> int list \<Rightarrow> ResourceMonitor \<Rightarrow> int list \<times> ResourceMonitor" where
  "allocateGPUs h ngpu specific_gpus rm =
     (if specific_gpus \<noteq> [] then
        (if \<exists>g \<in> set specific_gpus. g \<in> excluded_gpus rm then ([], rm)
         else
           (let (busy, gm') = any_gpu_busy h specific_gpus (gpu_monitor rm) in
            if busy then ([], rm\<lparr>gpu_monitor := gm'\<rparr>)
            else (specific_gpus, rm\<lparr>gpu_monitor := mon_allocateGPUs specific_gpus gm'\<rparr>)))
      else
        (let (available, gm') = getAvailableGPUs h (gpu_monitor rm);
             allocated = select_gpus (excluded_gpus rm) ngpu available []
         in if int (length allocated) < ngpu then ([], rm\<lparr>gpu_monitor := gm'\<rparr>)
            else (allocated, rm\<lparr>gpu_monitor := mon_allocateGPUs allocated gm'\<rparr>)))"

text \<open>The verification loop over explicitly requested CPUs: stop at the first failure.\<close>

fun all_cpus_available :: "host \<Rightarrow> int list \<Rightarrow> CPUMonitor \<Rightarrow> (bool \<times> CPUMonitor) option" where
  "all_cpus_available h [] m = Some (True, m)"
| "all_cpus_available h (c # cs) m =
     (case checkCPUAvailable h c m of
        None \<Rightarrow> None
      | Some (ok, m') \<Rightarrow> if ok then all_cpus_available h cs m' else Some (False, m'))"

text \<open>The loop over the shuffled candidates: a candidate that passes is reserved at once.\<close>

fun try_candidates :: "host \<Rightarrow> int \<Rightarrow> int list \<Rightarrow> int list \<Rightarrow> CPUMonitor \<Rightarrow> (int list \<times> CPUMonitor) option" where
  "try_candidates h ncpu [] allocated m = Some (allocated, m)"
| "try_candidates h ncpu (c # cs) allocated m =
     (if int (length allocated) \<ge> ncpu then Some (allocated, m)
      else
        (case checkCPUAvailable h c m of
           None \<Rightarrow> None
         | Some (ok, m') \<Rightarrow>
             if ok then try_candidates h ncpu cs (allocated @ [c]) (mon_allocateCPUs [c] m')
             else try_candidates h ncpu cs allocated m'))"

definition allocateCPUs :: "host \<Rightarrow> int \<Rightarrow> int \<Rightarrow> int list \<Rightarrow> ResourceMonitor \<Rightarrow> (int list \<times> ResourceMonitor) option" where
  "allocateCPUs h ncpu affinity_group specific_cpus rm =
     (if specific_cpus \<noteq> [] then
        (if \<exists>c \<in> set specific_cpus. c \<in> excluded_cpus rm then Some ([], rm)
         else
           (case all_cpus_available h specific_cpus (cpu_monitor rm) of
              None \<Rightarrow> None
            | Some (ok, m') \<Rightarrow>
                if \<not> ok then Some ([], rm\<lparr>cpu_monitor := m'\<rparr>)
                else Some (specific_cpus, rm\<lparr>cpu_monitor := mon_allocateCPUs specific_cpus m'\<rparr>)))
      else
        (let candidates = filter (\<lambda>c. c \<notin> excluded_cpus rm)
                                 (getAvailableCPUs affinity_group (cpu_monitor rm))
         in if int (length candidates) < ncpu then Some ([], rm)
            else
              (let (candidates, rm1) = shuffle candidates rm in
               case try_candidates h ncpu candidates [] (cpu_monitor rm1) of
                 None \<Rightarrow> None
               | Some (allocated, m') \<Rightarrow>
                   if int (length allocated) < ncpu then
                     Some ([], rm1\<lparr>cpu_monitor :=
                                     (if allocated \<noteq> [] then releaseCPUs allocated m' else m')\<rparr>)
                   else Some (allocated, rm1\<lparr>cpu_monitor := m'\<rparr>))))"

definition determineAffinityGroup :: "int list \<Rightarrow> int" where
  "determineAffinityGroup gs =
     (if gs = [] then 0
      else
        (let has_group1 = (\<exists>g \<in> set gs. getAffinityGroup g = 1);
             has_group2 = (\<exists>g \<in> set gs. getAffinityGroup g \<noteq> 1)
         in if has_group1 \<and> has_group2 then 0
            else if has_group1 then 1 else 2))"

text \<open>
  \<open>allocate\<close> returns \<open>None\<close> where the program has no defined result (see
  \<open>checkCPUAvailable\<close>), \<open>Some (None, _)\<close> for \<open>std::nullopt\<close> and
  \<open>Some (Some r, _)\<close> for a successful allocation \<open>r\<close>. \<open>rollback_gpus\<close> is the
  release of the GPUs that both failure branches of the CPU step perform.
\<close>

definition rollback_gpus :: "int list \<Rightarrow> ResourceMonitor \<Rightarrow> ResourceMonitor" where
  "rollback_gpus gs rm =
     (if gs \<noteq> [] then rm\<lparr>gpu_monitor := releaseGPUs gs (gpu_monitor rm)\<rparr> else rm)"

definition allocate :: "host \<Rightarrow> int \<Rightarrow> int \<Rightarrow> int list \<Rightarrow> int list \<Rightarrow> ResourceMonitor \<Rightarrow> (AllocationResult option \<times> ResourceMonitor) option" where
  "allocate h ncpu ngpu specific_cpus specific_gpus rm =
     (let (gs, rm1) = (if ngpu > 0 \<or> specific_gpus \<noteq> []
                       then allocateGPUs h ngpu specific_gpus rm else ([], rm))
      in
      if (ngpu > 0 \<or> specific_gpus \<noteq> [])
         \<and> specific_gpus \<noteq> [] \<and> length gs \<noteq> length specific_gpus then Some (None, rm1)
      else if (ngpu > 0 \<or> specific_gpus \<noteq> [])
         \<and> specific_gpus = [] \<and> int (length gs) < ngpu then Some (None, rm1)
      else
        (let affinity_group = determineAffinityGroup gs in
         if ncpu > 0 \<or> specific_cpus \<noteq> [] then
           (case allocateCPUs h ncpu affinity_group specific_cpus rm1 of
              None \<Rightarrow> None
            | Some (cs, rm2) \<Rightarrow>
                if specific_cpus \<noteq> [] \<and> length cs \<noteq> length specific_cpus then
                  Some (None, rollback_gpus gs rm2)
                else if specific_cpus = [] \<and> int (length cs) < ncpu then
                  Some (None, rollback_gpus gs rm2)
                else Some (Some \<lparr>cpus = cs, gpus = gs\<rparr>, rm2))
         else Some (Some \<lparr>cpus = [], gpus = gs\<rparr>, rm1)))"

definition release :: "int list \<Rightarrow> int list \<Rightarrow> ResourceMonitor \<Rightarrow> ResourceMonitor" where
  "release cs gs rm =
     (let rm1 = (if cs \<noteq> [] then rm\<lparr>cpu_monitor := releaseCPUs cs (cpu_monitor rm)\<rparr> else rm)
      in if gs \<noteq> [] then rm1\<lparr>gpu_monitor := releaseGPUs gs (gpu_monitor rm1)\<rparr> else rm1)"

section \<open>Sequences of calls on the resource monitor\<close>

text \<open>
  A client calls \<open>allocate\<close> and \<open>release\<close> in any order and with any arguments.
  \<open>run_calls\<close> runs such a sequence and keeps, for every allocation that succeeded, what
  it still holds: a release takes the released ids away from every holder.
\<close>

datatype ledger_call =
  Allocate int int "int list" "int list"
| Release "int list" "int list"

definition drop_released :: "int list \<Rightarrow> int list \<Rightarrow> AllocationResult \<Rightarrow> AllocationResult" where
  "drop_released cs gs a =
     \<lparr>cpus = filter (\<lambda>c. c \<notin> set cs) (cpus a), gpus = filter (\<lambda>g. g \<notin> set gs) (gpus a)\<rparr>"

fun run_calls :: "host \<Rightarrow> ledger_call list \<Rightarrow> ResourceMonitor \<times> AllocationResult list \<Rightarrow> (ResourceMonitor \<times> AllocationResult list) option" where
  "run_calls h [] st = Some st"
| "run_calls h (Allocate ncpu ngpu sc sg # rest) (rm, live) =
     (case allocate h ncpu ngpu sc sg rm of
        None \<Rightarrow> None
      | Some (None, rm') \<Rightarrow> run_calls h rest (rm', live)
      | Some (Some r, rm') \<Rightarrow> run_calls h rest (rm', live @ [r]))"
| "run_calls h (Release cs gs # rest) (rm, live) =
     run_calls h rest (release cs gs rm, map (drop_released cs gs) live)"

fun held_disjoint :: "AllocationResult list \<Rightarrow> bool" where
  "held_disjoint [] = True"
| "held_disjoint (a # as) =
     ((\<forall>b \<in> set as. set (cpus a) \<inter> set (cpus b) = {} \<and> set (gpus a) \<inter> set (gpus b) = {})
      \<and> held_disjoint as)"

text \<open>Every holder's CPUs and GPUs are marked as reserved in the monitor.\<close>

definition held_within :: "ResourceMonitor \<Rightarrow> AllocationResult list \<Rightarrow> bool" where
  "held_within rm live =
     (\<forall>a \<in> set live. set (cpus a) \<subseteq> allocated_cpus (cpu_monitor rm)
                      \<and> set (gpus a) \<subseteq> allocated_gpus (gpu_monitor rm))"

section \<open>The samples of one availability check\<close>

text \<open>
  \<open>sample_ok h m c k\<close>: the \<open>k\<close>-th sample that a check started in state \<open>m\<close> takes
  of core \<open>c\<close> is neither the error sentinel nor at or above the threshold.
  \<open>sample_count\<close> is the number of samples of a check that no sample stops.
\<close>

definition sample_ok :: "host \<Rightarrow> CPUMonitor \<Rightarrow> int \<Rightarrow> nat \<Rightarrow> bool" where
  "sample_ok h m core_id k =
     (let util = (if cpu_mock_mode m then
                    (case map_of (mock_utilization m) core_id of Some u \<Rightarrow> u | None \<Rightarrow> 0)
                  else proc_stat_util h (samples_taken m + k) core_id)
      in 0 \<le> util \<and> util < util_threshold m)"

definition sample_count :: "CPUMonitor \<Rightarrow> nat" where
  "sample_count m = nat (max 1 (check_duration_ms m sdiv check_interval_ms m))"

section \<open>Executor: the child's environment (executor.cpp)\<close>

text \<open>\<open>std::to_string\<close> on an int: decimal digits, with a minus sign for a negative value.\<close>

fun digits10 :: "nat \<Rightarrow> string" where
  "digits10 n =
     (if n < 10 then [''0123456789'' ! n]
      else digits10 (n div 10) @ [''0123456789'' ! (n mod 10)])"

declare digits10.simps [simp del]

definition to_string :: "int \<Rightarrow> string" where
  "to_string i = (if i < 0 then CHR ''-'' # digits10 (nat (- i)) else digits10 (nat i))"

text \<open>The loop of \<open>buildCpuString\<close> and \<open>buildGpuString\<close>, by the index \<open>i\<close>.\<close>

fun build_loop :: "nat \<Rightarrow> int list \<Rightarrow> string \<Rightarrow> string" where
  "build_loop i [] result = result"
| "build_loop i (x # xs) result =
     build_loop (Suc i) xs ((if i > 0 then result @ '','' else result) @ to_string x)"

definition buildCpuString :: "int list \<Rightarrow> string" where
  "buildCpuString cs = build_loop 0 cs []"

definition buildGpuString :: "int list \<Rightarrow> string" where
  "buildGpuString gs = build_loop 0 gs []"

type_synonym environment = "string \<rightharpoonup> string"

definition setenv :: "string \<Rightarrow> string \<Rightarrow> environment \<Rightarrow> environment" where
  "setenv name v env = env(name \<mapsto> v)"

definition setupEnvironment :: "int list \<Rightarrow> int list \<Rightarrow> environment \<Rightarrow> environment" where
  "setupEnvironment cs gs env =
     (let gpu_str = buildGpuString gs;
          env1 = setenv ''CUDA_VISIBLE_DEVICES'' gpu_str env;
          env2 = setenv ''MYQUEUE_GPUS'' gpu_str env1;
          cpu_str = buildCpuString cs
      in setenv ''MYQUEUE_CPUS'' cpu_str env2)"

text \<open>Reading a comma-separated list of decimal integers back.\<close>

fun split_commas :: "string \<Rightarrow> string list" where
  "split_commas [] = [[]]"
| "split_commas (c # cs) =
     (if c = CHR '','' then [] # split_commas cs
      else (case split_commas cs of f # fs \<Rightarrow> (c # f) # fs | [] \<Rightarrow> [[c]]))"

definition digit_value :: "char \<Rightarrow> nat" where
  "digit_value c = of_char c - 48"

definition is_digit :: "char \<Rightarrow> bool" where
  "is_digit c = (48 \<le> (of_char c :: nat) \<and> (of_char c :: nat) \<le> 57)"

definition dec_value :: "string \<Rightarrow> nat" where
  "dec_value s = foldl (\<lambda>a c. 10 * a + digit_value c) 0 s"

definition read_int :: "string \<Rightarrow> int" where
  "read_int s = (case s of
       c # r \<Rightarrow> if c = CHR ''-'' then - int (dec_value r) else int (dec_value s)
     | [] \<Rightarrow> 0)"

definition read_list :: "string \<Rightarrow> int list" where
  "read_list s = (if s = [] then [] else map read_int (split_commas s))"

section \<open>parseIdRange (task_queue.cpp)\<close>

text \<open>
  \<open>std::stoull\<close> with base 10: leading white space is skipped, one sign is accepted, the
  longest run of digits is converted and whatever follows is ignored; no digit is
  \<open>invalid_argument\<close>, a value beyond 64 bits is \<open>out_of_range\<close>, and a minus sign negates
  the value modulo \<open>2 ^ 64\<close>.

  \<open>push_back\<close> on the vector throws (\<open>std::bad_alloc\<close> or \<open>std::length_error\<close>) when the
  vector cannot grow; \<open>cap\<close> is the number of ids the vector takes before that, a matter of
  the machine and below \<open>2 ^ 60\<close> for 8-byte elements. Both exceptions are caught by the
  handler of \<open>parseIdRange\<close>, which then returns the ids pushed so far.
\<close>

definition isspace :: "char \<Rightarrow> bool" where
  "isspace c = (c \<in> {CHR '' '', CHR 0x09, CHR 0x0A, CHR 0x0B, CHR 0x0C, CHR 0x0D})"

datatype stoull_error = invalid_argument | out_of_range

definition stoull :: "string \<Rightarrow> stoull_error + 64 word" where
  "stoull str =
     (let s1 = dropWhile isspace str;
          (neg, s2) = (case s1 of
                         [] \<Rightarrow> (False, [])
                       | c # r \<Rightarrow> if c = CHR ''-'' then (True, r)
                                  else if c = CHR ''+'' then (False, r)
                                  else (False, s1));
          ds = takeWhile is_digit s2
      in if ds = [] then Inl invalid_argument
         else if dec_value ds \<ge> 2 ^ 64 then Inl out_of_range
         else Inr (if neg then - of_nat (dec_value ds) else of_nat (dec_value ds)))"











section \<open>Tasks and the task queue (task.h, task_queue.cpp)\<close>

datatype TaskStatus = PENDING | RUNNING | COMPLETED | FAILED | CANCELLED

record Task =
  task_id :: "64 word"
  script_path :: string
  workdir :: string
  ncpu :: int
  ngpu :: int
  specific_cpus :: "int list"
  specific_gpus :: "int list"
  log_file :: string
  t_allocated_cpus :: "int list"
  t_allocated_gpus :: "int list"
  status :: TaskStatus
  pid :: int
  exit_code :: int
  submit_time :: nat
  start_time :: "nat option"
  end_time :: "nat option"

definition isTerminal :: "Task \<Rightarrow> bool" where
  "isTerminal t = (status t = COMPLETED \<or> status t = FAILED \<or> status t = CANCELLED)"

text \<open>
  \<open>std::map<uint64_t, Task>\<close> is a list of pairs in ascending key order, the order in which
  the map is iterated. \<open>map_assign\<close> is \<open>m[k] = v\<close>, \<open>map_erase\<close> is \<open>m.erase(k)\<close>, and
  \<open>map_of\<close> is \<open>m.find(k)\<close>.
\<close>

fun map_assign :: "64 word \<Rightarrow> Task \<Rightarrow> (64 word \<times> Task) list \<Rightarrow> (64 word \<times> Task) list" where
  "map_assign k v [] = [(k, v)]"
| "map_assign k v ((k', v') # m) =
     (if k < k' then (k, v) # (k', v') # m
      else if k = k' then (k, v) # m
      else (k', v') # map_assign k v m)"

definition map_erase :: "64 word \<Rightarrow> (64 word \<times> Task) list \<Rightarrow> (64 word \<times> Task) list" where
  "map_erase k m = filter (\<lambda>(k', v). k' \<noteq> k) m"

record TaskQueue =
  data_dir :: string
  tasks :: "(64 word \<times> Task) list"
  next_id :: "64 word"

definition getTask :: "TaskQueue \<Rightarrow> 64 word \<Rightarrow> Task option" where
  "getTask q i = map_of (tasks q) i"

definition getRunningTasks :: "TaskQueue \<Rightarrow> Task list" where
  "getRunningTasks q = filter (\<lambda>t. status t = RUNNING) (map snd (tasks q))"

definition setTaskCompleted :: "64 word \<Rightarrow> int \<Rightarrow> nat \<Rightarrow> TaskQueue \<Rightarrow> bool \<times> TaskQueue" where
  "setTaskCompleted i code now q =
     (case map_of (tasks q) i of
        None \<Rightarrow> (False, q)
      | Some t \<Rightarrow>
          if status t \<noteq> RUNNING then (False, q)
          else (True, q\<lparr>tasks := map_assign i
                  (t\<lparr>status := COMPLETED, exit_code := code, end_time := Some now\<rparr>) (tasks q)\<rparr>))"

definition setTaskFailed :: "64 word \<Rightarrow> nat \<Rightarrow> TaskQueue \<Rightarrow> bool \<times> TaskQueue" where
  "setTaskFailed i now q =
     (case map_of (tasks q) i of
        None \<Rightarrow> (False, q)
      | Some t \<Rightarrow>
          if status t \<noteq> PENDING \<and> status t \<noteq> RUNNING then (False, q)
          else (True, q\<lparr>tasks := map_assign i
                  (t\<lparr>status := FAILED, end_time := Some now\<rparr>) (tasks q)\<rparr>))"

definition deleteTask :: "64 word \<Rightarrow> nat \<Rightarrow> TaskQueue \<Rightarrow> bool \<times> TaskQueue" where
  "deleteTask i now q =
     (case map_of (tasks q) i of
        None \<Rightarrow> (False, q)
      | Some t \<Rightarrow>
          (let m = (if \<not> isTerminal t
                    then map_assign i (t\<lparr>status := CANCELLED, end_time := Some now\<rparr>) (tasks q)
                    else tasks q)
           in (True, q\<lparr>tasks := map_erase i m\<rparr>)))"

text \<open>
  The file read by \<open>load\<close>: absent, unreadable as a document (any exception while parsing),
  or a document with its \<open>next_id\<close> and its tasks in file order.
\<close>

datatype tasks_file = NoFile | Malformed | Document "64 word" "Task list"

definition load :: "tasks_file \<Rightarrow> TaskQueue \<Rightarrow> TaskQueue" where
  "load file q =
     (if data_dir q = [] then q
      else case file of
             NoFile \<Rightarrow> q
           | Malformed \<Rightarrow> q\<lparr>tasks := [], next_id := 1\<rparr>
           | Document nid ts \<Rightarrow>
               q\<lparr>next_id := nid, tasks := fold (\<lambda>t m. map_assign (task_id t) t m) ts []\<rparr>)"

section \<open>Executor: processes (executor.cpp)\<close>

text \<open>
  What the operating system answers: the outcome of the \<open>n\<close>-th \<open>waitpid\<close> call and the
  return value of the \<open>n\<close>-th \<open>kill\<close> call. \<open>Pending\<close> is the result 0 of a non-blocking
  \<open>waitpid\<close>, \<open>WaitError\<close> a negative result; the other three are a reaped child whose
  status says exited, signalled, or neither.
\<close>

datatype wait_result = Pending | WaitError | Exited int | Signaled int | OtherStatus

datatype signal = SIGTERM | SIGKILL

datatype syscall = Kill int signal | Waitpid int | Usleep int

record os =
  waitpid_nohang :: "nat \<Rightarrow> int \<Rightarrow> wait_result"
  waitpid_blocking :: "nat \<Rightarrow> int \<Rightarrow> wait_result"
  kill :: "nat \<Rightarrow> int \<Rightarrow> signal \<Rightarrow> int"

record ProcessStatus =
  running :: bool
  ps_exit_code :: int
  signaled :: bool
  signal_number :: int

text \<open>The executor's side of the model is the sequence of system calls it has made.\<close>

record Executor =
  wait_calls :: nat
  kill_calls :: nat
  calls :: "syscall list"

definition checkStatus :: "os \<Rightarrow> int \<Rightarrow> Executor \<Rightarrow> ProcessStatus \<times> Executor" where
  "checkStatus sys p ex =
     (let result = waitpid_nohang sys (wait_calls ex) p;
          ex' = ex\<lparr>wait_calls := Suc (wait_calls ex), calls := calls ex @ [Waitpid p]\<rparr>
      in case result of
           Pending \<Rightarrow>
             (\<lparr>running = True, ps_exit_code = 0, signaled = False, signal_number = 0\<rparr>, ex')
         | WaitError \<Rightarrow>
             (\<lparr>running = False, ps_exit_code = - 1, signaled = False, signal_number = 0\<rparr>, ex')
         | Exited code \<Rightarrow>
             (\<lparr>running = False, ps_exit_code = code, signaled = False, signal_number = 0\<rparr>, ex')
         | Signaled n \<Rightarrow>
             (\<lparr>running = False, ps_exit_code = 128 + n, signaled = True, signal_number = n\<rparr>, ex')
         | OtherStatus \<Rightarrow>
             (\<lparr>running = False, ps_exit_code = 0, signaled = False, signal_number = 0\<rparr>, ex'))"

definition do_kill :: "os \<Rightarrow> int \<Rightarrow> signal \<Rightarrow> Executor \<Rightarrow> int \<times> Executor" where
  "do_kill sys target sig ex =
     (kill sys (kill_calls ex) target sig,
      ex\<lparr>kill_calls := Suc (kill_calls ex), calls := calls ex @ [Kill target sig]\<rparr>)"

definition terminate :: "os \<Rightarrow> int \<Rightarrow> bool \<Rightarrow> Executor \<Rightarrow> bool \<times> Executor" where
  "terminate sys p force ex =
     (let sig = (if force then SIGKILL else SIGTERM);
          (result, ex1) = do_kill sys (- p) sig ex
      in if result \<noteq> 0 then
           (let (result, ex2) = do_kill sys p sig ex1 in (result = 0, ex2))
         else (result = 0, ex1))"

function timed_wait :: "os \<Rightarrow> int \<Rightarrow> int \<Rightarrow> int \<Rightarrow> Executor \<Rightarrow> int option \<times> Executor" where
  "timed_wait sys p timeout_ms elapsed ex =
     (if elapsed < timeout_ms then
        (let (st, ex1) = checkStatus sys p ex in
         if \<not> running st then (Some (ps_exit_code st), ex1)
         else timed_wait sys p timeout_ms (elapsed + 100)
                (ex1\<lparr>calls := calls ex1 @ [Usleep (100 * 1000)]\<rparr>))
      else (None, ex))"
  by pat_completeness auto
termination
  by (relation "measure (\<lambda>(sys, p, timeout_ms, elapsed, ex). nat (timeout_ms - elapsed))") auto

definition waitFor :: "os \<Rightarrow> int \<Rightarrow> int \<Rightarrow> Executor \<Rightarrow> int option \<times> Executor" where
  "waitFor sys p timeout_ms ex =
     (if timeout_ms = 0 then
        (let (st, ex1) = checkStatus sys p ex in
         if \<not> running st then (Some (ps_exit_code st), ex1) else (None, ex1))
      else if timeout_ms < 0 then
        (let result = waitpid_blocking sys (wait_calls ex) p;
             ex1 = ex\<lparr>wait_calls := Suc (wait_calls ex), calls := calls ex @ [Waitpid p]\<rparr>
         in case result of
              Pending \<Rightarrow> (None, ex1)
            | WaitError \<Rightarrow> (None, ex1)
            | Exited code \<Rightarrow> (Some code, ex1)
            | Signaled n \<Rightarrow> (Some (128 + n), ex1)
            | OtherStatus \<Rightarrow> (Some (- 1), ex1))
      else timed_wait sys p timeout_ms 0 ex)"

section \<open>Scheduler and server (scheduler.cpp, server.cpp)\<close>

text \<open>
  The queue, the monitor and the executor are owned by the server and used by the
  scheduler through references: one record holds them. \<open>notified\<close> lists the calls of the
  state callback (made only when one is installed), \<open>written\<close> the documents handed to
  \<open>save\<close> for writing.
\<close>

record Core =
  queue :: TaskQueue
  monitor :: ResourceMonitor
  executor :: Executor
  callback_installed :: bool
  notified :: "(64 word \<times> TaskStatus \<times> TaskStatus) list"
  written :: "(64 word \<times> Task list) list"

definition notifyStateChange :: "64 word \<Rightarrow> TaskStatus \<Rightarrow> TaskStatus \<Rightarrow> Core \<Rightarrow> Core" where
  "notifyStateChange i old_status new_status s =
     (if callback_installed s then s\<lparr>notified := notified s @ [(i, old_status, new_status)]\<rparr>
      else s)"

definition save :: "Core \<Rightarrow> Core" where
  "save s =
     (if data_dir (queue s) = [] then s
      else s\<lparr>written := written s @ [(next_id (queue s), map snd (tasks (queue s)))]\<rparr>)"

definition handleTaskCompletion :: "64 word \<Rightarrow> int \<Rightarrow> nat \<Rightarrow> Core \<Rightarrow> Core" where
  "handleTaskCompletion i code now s =
     (case getTask (queue s) i of
        None \<Rightarrow> s
      | Some task \<Rightarrow>
          (let s1 = s\<lparr>monitor := release (t_allocated_cpus task) (t_allocated_gpus task) (monitor s)\<rparr>;
               old_status = status task;
               (q', new_status) =
                 (if code = 0 then (snd (setTaskCompleted i code now (queue s1)), COMPLETED)
                  else (snd (setTaskCompleted i code now (queue s1)), COMPLETED));
               s2 = notifyStateChange i old_status new_status (s1\<lparr>queue := q'\<rparr>)
           in save s2))"

definition check_task :: "os \<Rightarrow> nat \<Rightarrow> Task \<Rightarrow> Core \<Rightarrow> Core" where
  "check_task sys now task s =
     (if pid task \<le> 0 then s
      else
        (let (st, ex') = checkStatus sys (pid task) (executor s);
             s1 = s\<lparr>executor := ex'\<rparr>
         in if \<not> running st then handleTaskCompletion (task_id task) (ps_exit_code st) now s1
            else s1))"

definition checkRunningTasks :: "os \<Rightarrow> nat \<Rightarrow> Core \<Rightarrow> Core" where
  "checkRunningTasks sys now s =
     fold (check_task sys now) (getRunningTasks (queue s)) s"

definition terminateTask :: "os \<Rightarrow> 64 word \<Rightarrow> bool \<Rightarrow> nat \<Rightarrow> Core \<Rightarrow> bool \<times> Core" where
  "terminateTask sys i force now s =
     (case getTask (queue s) i of
        None \<Rightarrow> (False, s)
      | Some task \<Rightarrow>
          if status task \<noteq> RUNNING \<or> pid task \<le> 0 then (False, s)
          else
            (let (result, ex1) = terminate sys (pid task) False (executor s) in
             if result then
               (let (code, ex2) = waitFor sys (pid task) 2000 ex1;
                    (code, ex3) =
                      (if code = None then
                         (let (r, ex') = terminate sys (pid task) True ex2
                          in waitFor sys (pid task) 1000 ex')
                       else (code, ex2));
                    s1 = s\<lparr>executor := ex3,
                           monitor := release (t_allocated_cpus task) (t_allocated_gpus task)
                                        (monitor s)\<rparr>;
                    old_status = status task;
                    s2 = s1\<lparr>queue := snd (deleteTask i now (queue s1))\<rparr>;
                    s3 = notifyStateChange i old_status CANCELLED s2
                in (result, save s3))
             else (result, s\<lparr>executor := ex1\<rparr>)))"

text \<open>
  \<open>Server::start\<close> from the loading of the queue to the end of the loop over the tasks
  found running; the threads started afterwards are outside this model.
\<close>

definition recover_task :: "os \<Rightarrow> nat \<Rightarrow> Task \<Rightarrow> Core \<Rightarrow> Core" where
  "recover_task sys now task s =
     (let (st, ex') = checkStatus sys (pid task) (executor s);
          s1 = s\<lparr>executor := ex'\<rparr>
      in if running st then s1
         else s1\<lparr>queue := snd (setTaskFailed (task_id task) now (queue s1))\<rparr>)"

definition Server_start :: "os \<Rightarrow> tasks_file \<Rightarrow> nat \<Rightarrow> Core \<Rightarrow> Core" where
  "Server_start sys file now s =
     (let s1 = s\<lparr>queue := load file (queue s)\<rparr>;
          running_tasks = getRunningTasks (queue s1)
      in fold (recover_task sys now) running_tasks s1)"

text \<open>Between two states of the store, the only change of status is from running to completed.\<close>

definition only_completes :: "Core \<Rightarrow> Core \<Rightarrow> bool" where
  "only_completes s s' =
     (\<forall>j t'. getTask (queue s') j = Some t' \<longrightarrow>
        (\<exists>t. getTask (queue s) j = Some t
           \<and> (status t' = status t \<or> (status t = RUNNING \<and> status t' = COMPLETED))))"

section \<open>Example states\<close>

text \<open>
  A host with two idle GPUs and idle cores, a monitor for two GPUs and two CPUs, the state
  this monitor reaches through \<open>example_calls\<close>, and a store with one running task.
\<close>

definition example_host :: host where
  "example_host = \<lparr>nvidia_smi = (\<lambda>k. Rows [(0, 100, 16384), (1, 100, 16384)]),
                    proc_stat_util = (\<lambda>k c. 10)\<rparr>"

definition example_monitor :: ResourceMonitor where
  "example_monitor =
     \<lparr>gpu_monitor = \<lparr>memory_threshold_mb = 2000, total_gpus = 2, allocated_gpus = {},
                     gpu_mock_mode = False, mock_data = [], smi_calls = 0\<rparr>,
      cpu_monitor = \<lparr>util_threshold = 40, total_cpus = 2, check_duration_ms = 1000,
                     check_interval_ms = 500, allocated_cpus = {}, cpu_mock_mode = False,
                     mock_utilization = [], samples_taken = 0\<rparr>,
      excluded_cpus = {}, excluded_gpus = {}, rng = [1]\<rparr>"

definition example_calls :: "ledger_call list" where
  "example_calls = [Allocate 1 1 [] [], Release [1] [], Allocate 1 0 [] []]"

definition example_reached :: ResourceMonitor where
  "example_reached =
     \<lparr>gpu_monitor = \<lparr>memory_threshold_mb = 2000, total_gpus = 2, allocated_gpus = {0},
                     gpu_mock_mode = False, mock_data = [], smi_calls = 1\<rparr>,
      cpu_monitor = \<lparr>util_threshold = 40, total_cpus = 2, check_duration_ms = 1000,
                     check_interval_ms = 500, allocated_cpus = {0}, cpu_mock_mode = False,
                     mock_utilization = [], samples_taken = 4\<rparr>,
      excluded_cpus = {}, excluded_gpus = {}, rng = []\<rparr>"

definition example_after :: ResourceMonitor where
  "example_after =
     \<lparr>gpu_monitor = \<lparr>memory_threshold_mb = 2000, total_gpus = 2, allocated_gpus = {0, 1},
                     gpu_mock_mode = False, mock_data = [], smi_calls = 2\<rparr>,
      cpu_monitor = \<lparr>util_threshold = 40, total_cpus = 2, check_duration_ms = 1000,
                     check_interval_ms = 500, allocated_cpus = {0, 1}, cpu_mock_mode = False,
                     mock_utilization = [], samples_taken = 6\<rparr>,
      excluded_cpus = {}, excluded_gpus = {}, rng = []\<rparr>"

definition busy_host :: host where
  "busy_host = \<lparr>nvidia_smi = (\<lambda>k. Rows [(0, 100, 16384), (1, 100, 16384)]),
                 proc_stat_util = (\<lambda>k c. 80)\<rparr>"

definition example_failed :: ResourceMonitor where
  "example_failed =
     \<lparr>gpu_monitor = \<lparr>memory_threshold_mb = 2000, total_gpus = 2, allocated_gpus = {},
                     gpu_mock_mode = False, mock_data = [], smi_calls = 1\<rparr>,
      cpu_monitor = \<lparr>util_threshold = 40, total_cpus = 2, check_duration_ms = 1000,
                     check_interval_ms = 500, allocated_cpus = {}, cpu_mock_mode = False,
                     mock_utilization = [], samples_taken = 2\<rparr>,
      excluded_cpus = {}, excluded_gpus = {}, rng = []\<rparr>"

definition one_row_host :: host where
  "one_row_host = \<lparr>nvidia_smi = (\<lambda>k. Rows [(0, 100, 16384)]), proc_stat_util = (\<lambda>k c. 10)\<rparr>"

definition sampling_monitor :: CPUMonitor where
  "sampling_monitor =
     \<lparr>util_threshold = 40, total_cpus = 64, check_duration_ms = 1000,
      check_interval_ms = 300, allocated_cpus = {}, cpu_mock_mode = False,
      mock_utilization = [], samples_taken = 0\<rparr>"

definition example_task :: Task where
  "example_task =
     \<lparr>task_id = 1, script_path = ''/home/u/job.sh'', workdir = ''/home/u'',
      ncpu = 1, ngpu = 1, specific_cpus = [], specific_gpus = [], log_file = [],
      t_allocated_cpus = [0], t_allocated_gpus = [0], status = RUNNING, pid = 4242,
      exit_code = 0, submit_time = 100, start_time = Some 101, end_time = None\<rparr>"

definition example_core :: Core where
  "example_core =
     \<lparr>queue = \<lparr>data_dir = ''/var/myqueue'', tasks = [], next_id = 1\<rparr>,
      monitor = example_monitor,
      executor = \<lparr>wait_calls = 0, kill_calls = 0, calls = []\<rparr>,
      callback_installed = True, notified = [], written = []\<rparr>"

definition alive_os :: os where
  "alive_os = \<lparr>waitpid_nohang = (\<lambda>n p. Pending), waitpid_blocking = (\<lambda>n p. Exited 0),
                kill = (\<lambda>n p sig. 0)\<rparr>"

definition dying_os :: os where
  "dying_os = \<lparr>waitpid_nohang = (\<lambda>n p. if n = 0 then Pending else Signaled 15),
                waitpid_blocking = (\<lambda>n p. Signaled 15),
                kill = (\<lambda>n p sig. 0)\<rparr>"

definition running_core :: Core where
  "running_core = example_core\<lparr>queue := \<lparr>data_dir = ''/var/myqueue'',
                                           tasks = [(1, example_task)], next_id = 2\<rparr>\<rparr>"

definition exited_os :: os where
  "exited_os = \<lparr>waitpid_nohang = (\<lambda>n p. Exited 3), waitpid_blocking = (\<lambda>n p. Exited 3),
                kill = (\<lambda>n p sig. 0)\<rparr>"

definition failed_task :: Task where
  "failed_task = example_task\<lparr>task_id := 2, status := FAILED, pid := 0, end_time := Some 150\<rparr>"

definition two_task_core :: Core where
  "two_task_core = example_core\<lparr>queue := \<lparr>data_dir = ''/var/myqueue'',
         tasks = [(1, example_task), (2, failed_task)], next_id = 3\<rparr>\<rparr>"

section \<open>The reserved sets\<close>

lemma fold_insert_set: "fold insert xs A = A \<union> set xs"
  by (induction xs arbitrary: A) auto

lemma fold_remove_set: "fold (\<lambda>i s. s - {i}) xs A = A - set xs"
  by (induction xs arbitrary: A) auto

lemma allocated_mon_allocateGPUs [simp]:
  "allocated_gpus (mon_allocateGPUs gs gm) = allocated_gpus gm \<union> set gs"
  by (simp add: mon_allocateGPUs_def fold_insert_set)

lemma allocated_releaseGPUs [simp]:
  "allocated_gpus (releaseGPUs gs gm) = allocated_gpus gm - set gs"
  by (simp add: releaseGPUs_def fold_remove_set)

lemma allocated_mon_allocateCPUs [simp]:
  "allocated_cpus (mon_allocateCPUs cs m) = allocated_cpus m \<union> set cs"
  by (simp add: mon_allocateCPUs_def fold_insert_set)

lemma allocated_releaseCPUs [simp]:
  "allocated_cpus (releaseCPUs cs m) = allocated_cpus m - set cs"
  by (simp add: releaseCPUs_def fold_remove_set)

lemma queryGPUs_allocated:
  "queryGPUs h gm = (infos, gm') \<Longrightarrow> allocated_gpus gm' = allocated_gpus gm"
  by (auto simp: queryGPUs_def executeNvidiaSmi_def Let_def split: if_splits)

lemma queryGPUs_flags:
  "queryGPUs h gm = (infos, gm') \<Longrightarrow> gpu \<in> set infos \<Longrightarrow>
     is_allocated gpu = (device_id gpu \<in> allocated_gpus gm)"
  by (auto simp: queryGPUs_def executeNvidiaSmi_def Let_def split: if_splits)

lemma find_SomeD: "find P xs = Some x \<Longrightarrow> x \<in> set xs \<and> P x"
  by (induction xs) (auto split: if_splits)

lemma isGPUBusy_allocated:
  "isGPUBusy h d gm = (b, gm') \<Longrightarrow>
     allocated_gpus gm' = allocated_gpus gm \<and> (\<not> b \<longrightarrow> d \<notin> allocated_gpus gm)"
  by (auto simp: isGPUBusy_def executeNvidiaSmi_def Let_def split: if_splits option.splits)

lemma any_gpu_busy_allocated:
  "any_gpu_busy h gs gm = (b, gm') \<Longrightarrow>
     allocated_gpus gm' = allocated_gpus gm \<and> (\<not> b \<longrightarrow> set gs \<inter> allocated_gpus gm = {})"
proof (induction gs arbitrary: gm)
  case Nil
  then show ?case by simp
next
  case (Cons g gs)
  obtain b1 gm1 where s: "isGPUBusy h g gm = (b1, gm1)" by (cases "isGPUBusy h g gm")
  from isGPUBusy_allocated [OF s] Cons s show ?case
    by (cases b1) auto
qed

lemma getAvailableGPUs_allocated:
  assumes "getAvailableGPUs h gm = (av, gm')"
  shows "allocated_gpus gm' = allocated_gpus gm \<and> set av \<inter> allocated_gpus gm = {}"
proof -
  obtain infos gm1 where q: "queryGPUs h gm = (infos, gm1)" by (cases "queryGPUs h gm")
  have a: "allocated_gpus gm1 = allocated_gpus gm" by (rule queryGPUs_allocated [OF q])
  from assms q have gm': "gm' = gm1"
    and av: "av = filter (\<lambda>i. case find (\<lambda>gpu. device_id gpu = i) infos of
                      Some gpu \<Rightarrow> \<not> is_busy gpu \<and> \<not> is_allocated gpu
                    | None \<Rightarrow> i \<notin> allocated_gpus gm1) (map int [0..<nat (total_gpus gm1)])"
    by (auto simp: getAvailableGPUs_def)
  have "i \<notin> allocated_gpus gm" if "i \<in> set av" for i
  proof (cases "find (\<lambda>gpu. device_id gpu = i) infos")
    case None
    with that av a show ?thesis by auto
  next
    case (Some gpu)
    from find_SomeD [OF Some] have "gpu \<in> set infos" "device_id gpu = i" by auto
    with queryGPUs_flags [OF q] have "is_allocated gpu = (i \<in> allocated_gpus gm)" by auto
    with that av Some show ?thesis by auto
  qed
  with a gm' show ?thesis by auto
qed

lemma select_gpus_subset:
  "set (select_gpus excl n av acc) \<subseteq> set acc \<union> set av"
  by (induction excl n av acc rule: select_gpus.induct) auto

lemma allocateGPUs_sets:
  assumes "allocateGPUs h n sg rm = (gs, rm')"
  shows "set gs \<inter> allocated_gpus (gpu_monitor rm) = {}
       \<and> allocated_gpus (gpu_monitor rm') = allocated_gpus (gpu_monitor rm) \<union> set gs
       \<and> cpu_monitor rm' = cpu_monitor rm"
proof (cases "sg = []")
  case True
  obtain av gm1 where g: "getAvailableGPUs h (gpu_monitor rm) = (av, gm1)"
    by (cases "getAvailableGPUs h (gpu_monitor rm)")
  from getAvailableGPUs_allocated [OF g] select_gpus_subset [of "excluded_gpus rm" n av "[]"]
  have "set (select_gpus (excluded_gpus rm) n av []) \<inter> allocated_gpus (gpu_monitor rm) = {}"
    and "allocated_gpus gm1 = allocated_gpus (gpu_monitor rm)" by auto
  with assms True g show ?thesis
    by (auto simp: allocateGPUs_def Let_def split: if_splits)
next
  case False
  obtain b gm1 where g: "any_gpu_busy h sg (gpu_monitor rm) = (b, gm1)"
    by (cases "any_gpu_busy h sg (gpu_monitor rm)")
  from any_gpu_busy_allocated [OF g] assms False g show ?thesis
    by (auto simp: allocateGPUs_def Let_def split: if_splits)
qed


lemma getCPUUtilization_allocated:
  "getCPUUtilization h c m = (u, m') \<Longrightarrow> allocated_cpus m' = allocated_cpus m"
  by (auto simp: getCPUUtilization_def)

lemma check_loop_allocated:
  "check_loop h c n m = (b, m') \<Longrightarrow> allocated_cpus m' = allocated_cpus m"
proof (induction n arbitrary: m)
  case 0
  then show ?case by simp
next
  case (Suc n)
  obtain u m1 where s: "getCPUUtilization h c m = (u, m1)" by (cases "getCPUUtilization h c m")
  from Suc s getCPUUtilization_allocated [OF s] show ?case
    by (auto split: if_splits)
qed

lemma checkCPUAvailable_allocated:
  assumes "checkCPUAvailable h c m = Some (b, m')"
  shows "allocated_cpus m' = allocated_cpus m \<and> (b \<longrightarrow> c \<notin> allocated_cpus m)"
proof (cases "c \<in> allocated_cpus m")
  case True
  with assms show ?thesis by (simp add: checkCPUAvailable_def)
next
  case False
  with assms obtain n where "check_loop h c n m = (b, m')"
    by (auto simp: checkCPUAvailable_def Let_def simp del: check_loop.simps split: if_splits)
  from check_loop_allocated [OF this] False show ?thesis by simp
qed

lemma all_cpus_available_allocated:
  "all_cpus_available h cs m = Some (b, m') \<Longrightarrow>
     allocated_cpus m' = allocated_cpus m \<and> (b \<longrightarrow> set cs \<inter> allocated_cpus m = {})"
proof (induction cs arbitrary: m)
  case Nil
  then show ?case by simp
next
  case (Cons c cs)
  from Cons.prems obtain b1 m1 where s: "checkCPUAvailable h c m = Some (b1, m1)"
    by (auto split: option.splits)
  from checkCPUAvailable_allocated [OF s] Cons s show ?case
    by (cases b1) auto
qed

lemma try_candidates_allocated:
  "try_candidates h nc cands acc m = Some (acc', m') \<Longrightarrow>
     \<exists>new. acc' = acc @ new \<and> set new \<inter> allocated_cpus m = {}
          \<and> allocated_cpus m' = allocated_cpus m \<union> set new"
proof (induction cands arbitrary: acc m)
  case Nil
  then show ?case by simp
next
  case (Cons c cs)
  show ?case
  proof (cases "int (length acc) \<ge> nc")
    case True
    with Cons.prems show ?thesis by simp
  next
    case False
    with Cons.prems obtain b1 m1 where s: "checkCPUAvailable h c m = Some (b1, m1)"
      by (auto split: option.splits)
    note a = checkCPUAvailable_allocated [OF s]
    show ?thesis
    proof (cases b1)
      case True
      with Cons.prems False s
      have "try_candidates h nc cs (acc @ [c]) (mon_allocateCPUs [c] m1) = Some (acc', m')"
        by simp
      from Cons.IH [OF this] obtain new where
        n: "acc' = (acc @ [c]) @ new"
           "set new \<inter> allocated_cpus (mon_allocateCPUs [c] m1) = {}"
           "allocated_cpus m' = allocated_cpus (mon_allocateCPUs [c] m1) \<union> set new"
        by blast
      with a True have "acc' = acc @ (c # new) \<and> set (c # new) \<inter> allocated_cpus m = {}
          \<and> allocated_cpus m' = allocated_cpus m \<union> set (c # new)"
        by auto
      then show ?thesis by blast
    next
      case b: False
      with Cons.prems False s
      have "try_candidates h nc cs acc m1 = Some (acc', m')" by simp
      from Cons.IH [OF this] a show ?thesis by auto
    qed
  qed
qed

lemma allocateCPUs_sets:
  assumes "allocateCPUs h nc grp sc rm = Some (cs, rm')"
  shows "set cs \<inter> allocated_cpus (cpu_monitor rm) = {}
       \<and> allocated_cpus (cpu_monitor rm') = allocated_cpus (cpu_monitor rm) \<union> set cs
       \<and> gpu_monitor rm' = gpu_monitor rm"
proof (cases "sc = []")
  case False
  show ?thesis
  proof (cases "\<exists>c \<in> set sc. c \<in> excluded_cpus rm")
    case True
    with assms False show ?thesis by (auto simp: allocateCPUs_def)
  next
    case ne: False
    with assms False obtain b m1 where
      s: "all_cpus_available h sc (cpu_monitor rm) = Some (b, m1)"
      by (auto simp: allocateCPUs_def split: option.splits)
    from all_cpus_available_allocated [OF s] assms False ne s show ?thesis
      by (auto simp: allocateCPUs_def split: if_splits)
  qed
next
  case True
  define cands where "cands = filter (\<lambda>c. c \<notin> excluded_cpus rm)
                                 (getAvailableCPUs grp (cpu_monitor rm))"
  show ?thesis
  proof (cases "int (length cands) < nc")
    case short: True
    with assms True show ?thesis by (auto simp: allocateCPUs_def cands_def Let_def)
  next
    case enough: False
    obtain sh rm1 where sh: "shuffle cands rm = (sh, rm1)" by (cases "shuffle cands rm")
    then have rm1: "cpu_monitor rm1 = cpu_monitor rm" "gpu_monitor rm1 = gpu_monitor rm"
      by (auto simp: shuffle_def)
    from assms True enough sh obtain al m1 where
      t: "try_candidates h nc sh [] (cpu_monitor rm1) = Some (al, m1)"
      by (auto simp: allocateCPUs_def cands_def [symmetric] Let_def split: option.splits)
    from try_candidates_allocated [OF t] rm1
    have d: "set al \<inter> allocated_cpus (cpu_monitor rm) = {}"
      and u: "allocated_cpus m1 = allocated_cpus (cpu_monitor rm) \<union> set al"
      by auto
    from assms True enough sh t
    have "(cs, rm') = (if int (length al) < nc
            then ([], rm1\<lparr>cpu_monitor := (if al \<noteq> [] then releaseCPUs al m1 else m1)\<rparr>)
            else (al, rm1\<lparr>cpu_monitor := m1\<rparr>))"
      by (simp add: allocateCPUs_def cands_def [symmetric] Let_def split: if_splits)
    with d u rm1 show ?thesis
      by (auto split: if_splits)
  qed
qed

lemma allocate_success_sets:
  assumes "allocate h nc ng sc sg rm = Some (Some r, rm')"
  shows "set (cpus r) \<inter> allocated_cpus (cpu_monitor rm) = {}
       \<and> set (gpus r) \<inter> allocated_gpus (gpu_monitor rm) = {}
       \<and> allocated_cpus (cpu_monitor rm') = allocated_cpus (cpu_monitor rm) \<union> set (cpus r)
       \<and> allocated_gpus (gpu_monitor rm') = allocated_gpus (gpu_monitor rm) \<union> set (gpus r)"
proof -
  define gr where "gr = (if ng > 0 \<or> sg \<noteq> [] then allocateGPUs h ng sg rm else ([], rm))"
  obtain gs rm1 where gr: "gr = (gs, rm1)" by (cases gr)
  have g: "set gs \<inter> allocated_gpus (gpu_monitor rm) = {}
       \<and> allocated_gpus (gpu_monitor rm1) = allocated_gpus (gpu_monitor rm) \<union> set gs
       \<and> cpu_monitor rm1 = cpu_monitor rm"
    using gr allocateGPUs_sets [of h ng sg rm gs rm1]
    by (auto simp: gr_def split: if_splits)
  show ?thesis
  proof (cases "nc > 0 \<or> sc \<noteq> []")
    case False
    with assms gr g show ?thesis
      by (auto simp: allocate_def gr_def [symmetric] Let_def split: if_splits)
  next
    case True
    with assms gr obtain cs rm2 where
      c: "allocateCPUs h nc (determineAffinityGroup gs) sc rm1 = Some (cs, rm2)"
      by (auto simp: allocate_def gr_def [symmetric] Let_def split: if_splits option.splits)
    from assms gr True c have r: "r = \<lparr>cpus = cs, gpus = gs\<rparr>" "rm' = rm2"
      by (auto simp: allocate_def gr_def [symmetric] Let_def split: if_splits)
    from allocateCPUs_sets [OF c] g r show ?thesis by auto
  qed
qed

lemma allocate_failure_sets:
  assumes "allocate h nc ng sc sg rm = Some (None, rm')"
  shows "allocated_cpus (cpu_monitor rm') = allocated_cpus (cpu_monitor rm)
       \<and> allocated_gpus (gpu_monitor rm') = allocated_gpus (gpu_monitor rm)"
proof -
  define gr where "gr = (if ng > 0 \<or> sg \<noteq> [] then allocateGPUs h ng sg rm else ([], rm))"
  obtain gs rm1 where gr: "gr = (gs, rm1)" by (cases gr)
  have g: "set gs \<inter> allocated_gpus (gpu_monitor rm) = {}
       \<and> allocated_gpus (gpu_monitor rm1) = allocated_gpus (gpu_monitor rm) \<union> set gs
       \<and> cpu_monitor rm1 = cpu_monitor rm"
    using gr allocateGPUs_sets [of h ng sg rm gs rm1]
    by (auto simp: gr_def split: if_splits)
  show ?thesis
  proof (cases "((ng > 0 \<or> sg \<noteq> []) \<and> sg \<noteq> [] \<and> length gs \<noteq> length sg)
              \<or> ((ng > 0 \<or> sg \<noteq> []) \<and> sg = [] \<and> int (length gs) < ng)")
    case True
    with assms gr have rm': "rm' = rm1"
      by (auto simp: allocate_def gr_def [symmetric] Let_def split: if_splits)
    have "gs = []"
    proof (rule ccontr)
      assume ne: "gs \<noteq> []"
      from True gr have "allocateGPUs h ng sg rm = (gs, rm1)"
        by (auto simp: gr_def split: if_splits)
      with ne True show False
        by (auto simp: allocateGPUs_def Let_def split: if_splits prod.splits)
    qed
    with g rm' show ?thesis by simp
  next
    case False
    with assms gr obtain cs rm2 where
      c: "allocateCPUs h nc (determineAffinityGroup gs) sc rm1 = Some (cs, rm2)"
      and rm': "rm' = rollback_gpus gs rm2"
      and fail: "(sc \<noteq> [] \<and> length cs \<noteq> length sc) \<or> (sc = [] \<and> int (length cs) < nc)"
      by (auto simp: allocate_def gr_def [symmetric] Let_def split: if_splits option.splits)
    have "cs = []"
    proof (rule ccontr)
      assume ne: "cs \<noteq> []"
      with c fail show False
        by (auto simp: allocateCPUs_def Let_def split: if_splits option.splits prod.splits)
    qed
    with allocateCPUs_sets [OF c] g rm' show ?thesis
      by (auto simp: rollback_gpus_def)
  qed
qed


text \<open>
  C10. A request for no CPU and no GPU, with no explicit sets, succeeds in every state of
  the monitor with two empty sets, and the monitor is left exactly as it was: no reserved
  set changes and no probe is read (the counters of samples and of tool calls are part of
  the state).
\<close>

theorem allocate_nothing:
  "allocate h 0 0 [] [] rm = Some (Some \<lparr>cpus = [], gpus = []\<rparr>, rm)"
  by (simp add: allocate_def determineAffinityGroup_def)

text \<open>
  C2. Whenever \<open>allocate\<close> returns \<open>std::nullopt\<close>, whatever the request (explicit or
  counted CPUs and GPUs, a failure of the GPU step or of the CPU step after GPUs were
  reserved), the reserved CPU set and the reserved GPU set are what they were before the
  call.
\<close>

theorem failed_allocate_rolls_back:
  assumes "allocate h nc ng sc sg rm = Some (None, rm')"
  shows "allocated_cpus (cpu_monitor rm') = allocated_cpus (cpu_monitor rm)
       \<and> allocated_gpus (gpu_monitor rm') = allocated_gpus (gpu_monitor rm)"
  using assms by (rule allocate_failure_sets)

text \<open>
  On a host whose cores are all at 80 percent, a request for one CPU and one GPU reserves
  GPU 0, samples both cores, fails and gives the GPU back.
\<close>

theorem failed_allocate_rolls_back_witness:
  "allocate busy_host 1 1 [] [] example_monitor = Some (None, example_failed)
   \<and> allocated_cpus (cpu_monitor example_failed) = allocated_cpus (cpu_monitor example_monitor)
   \<and> allocated_gpus (gpu_monitor example_failed) = allocated_gpus (gpu_monitor example_monitor)"
proof -
  have a: "allocate busy_host 1 1 [] [] example_monitor = Some (None, example_failed)"
    by code_simp
  from failed_allocate_rolls_back [OF a] a show ?thesis by simp
qed

lemma release_sets:
  "allocated_cpus (cpu_monitor (release cs gs rm)) = allocated_cpus (cpu_monitor rm) - set cs
 \<and> allocated_gpus (gpu_monitor (release cs gs rm)) = allocated_gpus (gpu_monitor rm) - set gs"
  by (simp add: release_def Let_def)

lemma held_disjoint_snoc:
  "held_disjoint (live @ [r]) =
     (held_disjoint live
      \<and> (\<forall>a \<in> set live. set (cpus a) \<inter> set (cpus r) = {} \<and> set (gpus a) \<inter> set (gpus r) = {}))"
  by (induction live) auto

lemma held_disjoint_drop_released:
  "held_disjoint live \<Longrightarrow> held_disjoint (map (drop_released cs gs) live)"
  by (induction live) (auto simp: drop_released_def)

lemma run_calls_invariant:
  "run_calls h ops (rm, live) = Some (rm', live') \<Longrightarrow>
     held_disjoint live \<Longrightarrow> held_within rm live \<Longrightarrow>
     held_disjoint live' \<and> held_within rm' live'"
proof (induction ops arbitrary: rm live)
  case Nil
  then show ?case by simp
next
  case (Cons c ops)
  show ?case
  proof (cases c)
    case (Allocate nc ng sc sg)
    with Cons.prems obtain res rm1 where
      a: "allocate h nc ng sc sg rm = Some (res, rm1)"
      by (auto split: option.splits)
    show ?thesis
    proof (cases res)
      case None
      with a Allocate Cons.prems have r: "run_calls h ops (rm1, live) = Some (rm', live')"
        by simp
      from allocate_failure_sets [OF a [unfolded None]] Cons.prems(3)
      have "held_within rm1 live" by (simp add: held_within_def)
      from Cons.IH [OF r Cons.prems(2) this] show ?thesis .
    next
      case (Some r)
      with a Allocate Cons.prems
      have run: "run_calls h ops (rm1, live @ [r]) = Some (rm', live')"
        by simp
      note s = allocate_success_sets [OF a [unfolded Some]]
      from s Cons.prems(3) have w: "held_within rm1 (live @ [r])"
        by (auto simp: held_within_def)
      from s Cons.prems(2,3) have d: "held_disjoint (live @ [r])"
        unfolding held_disjoint_snoc held_within_def by blast
      from Cons.IH [OF run d w] show ?thesis .
    qed
  next
    case (Release cs gs)
    with Cons.prems
    have run: "run_calls h ops (release cs gs rm, map (drop_released cs gs) live) = Some (rm', live')"
      by simp
    from Cons.prems(3) have w: "held_within (release cs gs rm) (map (drop_released cs gs) live)"
      by (auto simp: held_within_def release_sets drop_released_def)
    from Cons.IH [OF run held_disjoint_drop_released [OF Cons.prems(2)] w] show ?thesis .
  qed
qed

text \<open>
  C1. After any sequence of \<open>allocate\<close> and \<open>release\<close> calls, a successful \<open>allocate\<close>
  returns CPUs and GPUs that are disjoint from the sets reserved before the call, and the
  new allocation shares no CPU and no GPU with what the earlier allocations still hold,
  which in turn share nothing with each other.
\<close>

theorem allocate_disjoint_from_reserved:
  assumes "run_calls h ops (rm0, []) = Some (rm, live)"
    and "allocate h nc ng sc sg rm = Some (Some r, rm')"
  shows "set (cpus r) \<inter> allocated_cpus (cpu_monitor rm) = {}
       \<and> set (gpus r) \<inter> allocated_gpus (gpu_monitor rm) = {}
       \<and> held_disjoint (live @ [r])"
proof -
  from run_calls_invariant [OF assms(1)] have i: "held_disjoint live" "held_within rm live"
    by (simp_all add: held_within_def)
  note s = allocate_success_sets [OF assms(2)]
  from s i have "held_disjoint (live @ [r])"
    unfolding held_disjoint_snoc held_within_def by blast
  with s show ?thesis by simp
qed


text \<open>
  The example sequence reserves CPU 1 and GPU 0, releases CPU 1 and reserves CPU 0; the
  next request for one CPU and one GPU then gets CPU 1 and GPU 1.
\<close>

theorem allocate_disjoint_from_reserved_witness:
  "run_calls example_host example_calls (example_monitor, []) =
     Some (example_reached, [\<lparr>cpus = [], gpus = [0]\<rparr>, \<lparr>cpus = [0], gpus = []\<rparr>])
   \<and> allocate example_host 1 1 [] [] example_reached =
     Some (Some \<lparr>cpus = [1], gpus = [1]\<rparr>, example_after)
   \<and> set [1] \<inter> allocated_cpus (cpu_monitor example_reached) = {}
   \<and> set [1] \<inter> allocated_gpus (gpu_monitor example_reached) = {}
   \<and> held_disjoint [\<lparr>cpus = [], gpus = [0]\<rparr>, \<lparr>cpus = [0], gpus = []\<rparr>, \<lparr>cpus = [1], gpus = [1]\<rparr>]"
proof -
  have run: "run_calls example_host example_calls (example_monitor, []) =
     Some (example_reached, [\<lparr>cpus = [], gpus = [0]\<rparr>, \<lparr>cpus = [0], gpus = []\<rparr>])"
    by code_simp
  have al: "allocate example_host 1 1 [] [] example_reached =
     Some (Some \<lparr>cpus = [1], gpus = [1]\<rparr>, example_after)"
    by code_simp
  from allocate_disjoint_from_reserved [OF run al] run al
  show ?thesis by simp
qed


section \<open>The availability check of a core\<close>

lemma check_loop_samples:
  "check_loop h c n m = (b, m') \<Longrightarrow>
     (b \<and> (\<forall>k < n. sample_ok h m c k) \<and> samples_taken m' = samples_taken m + n)
   \<or> (\<not> b \<and> (\<exists>j < n. \<not> sample_ok h m c j \<and> (\<forall>k < j. sample_ok h m c k)
                    \<and> samples_taken m' = samples_taken m + Suc j))"
proof (induction n arbitrary: m)
  case 0
  then show ?case by simp
next
  case (Suc n)
  define m1 where "m1 = m\<lparr>samples_taken := Suc (samples_taken m)\<rparr>"
  have shift: "sample_ok h m1 c k = sample_ok h m c (Suc k)" for k
    by (simp add: sample_ok_def m1_def)
  show ?case
  proof (cases "sample_ok h m c 0")
    case False
    with Suc.prems have "\<not> b" "m' = m1"
      by (auto simp: getCPUUtilization_def sample_ok_def m1_def Let_def split: if_splits)
    with False show ?thesis by (auto simp: m1_def)
  next
    case True
    with Suc.prems have r: "check_loop h c n m1 = (b, m')"
      by (auto simp: getCPUUtilization_def sample_ok_def m1_def Let_def split: if_splits)
    from Suc.IH [OF r] show ?thesis
    proof
      assume a: "b \<and> (\<forall>k<n. sample_ok h m1 c k) \<and> samples_taken m' = samples_taken m1 + n"
      have "\<forall>k<Suc n. sample_ok h m c k"
      proof (intro allI impI)
        fix k assume "k < Suc n"
        with a True shift show "sample_ok h m c k" by (cases k) auto
      qed
      with a show ?thesis by (simp add: m1_def)
    next
      assume "\<not> b \<and> (\<exists>j<n. \<not> sample_ok h m1 c j \<and> (\<forall>k<j. sample_ok h m1 c k)
                    \<and> samples_taken m' = samples_taken m1 + Suc j)"
      then obtain j where j: "\<not> b" "j < n" "\<not> sample_ok h m1 c j" "\<forall>k<j. sample_ok h m1 c k"
        "samples_taken m' = samples_taken m1 + Suc j" by blast
      have "\<forall>k<Suc j. sample_ok h m c k"
      proof (intro allI impI)
        fix k assume "k < Suc j"
        with j(4) True shift show "sample_ok h m c k" by (cases k) auto
      qed
      with j shift have "Suc j < Suc n \<and> \<not> sample_ok h m c (Suc j) \<and> (\<forall>k<Suc j. sample_ok h m c k)
          \<and> samples_taken m' = samples_taken m + Suc (Suc j)"
        by (simp add: m1_def)
      with j(1) show ?thesis by blast
    qed
  qed
qed

text \<open>
  C4, as the code has it. A check of a core that is already reserved returns false
  without taking a sample. Otherwise, for a non-zero interval, the check takes
  \<open>max 1 (window / interval)\<close> samples, the quotient truncated, not rounded up; it returns
  true iff each of them is at least 0 and strictly below the threshold, and it stops at the
  first sample that is negative (the error sentinel) or at or above the threshold, which
  includes a sample equal to the threshold.
\<close>

theorem checkCPUAvailable_samples:
  "(core1 \<in> allocated_cpus m1 \<longrightarrow> checkCPUAvailable h core1 m1 = Some (False, m1))
 \<and> (core_id \<notin> allocated_cpus m \<and> check_interval_ms m \<noteq> 0
      \<and> \<not> (check_duration_ms m = - (2 ^ 31) \<and> check_interval_ms m = - 1) \<longrightarrow>
    (\<exists>b m'. checkCPUAvailable h core_id m = Some (b, m')
     \<and> ((b \<and> (\<forall>k < sample_count m. sample_ok h m core_id k)
            \<and> samples_taken m' = samples_taken m + sample_count m)
       \<or> (\<not> b \<and> (\<exists>j < sample_count m. \<not> sample_ok h m core_id j
                        \<and> (\<forall>k < j. sample_ok h m core_id k)
                        \<and> samples_taken m' = samples_taken m + Suc j)))))"
proof (intro conjI impI)
  assume "core1 \<in> allocated_cpus m1"
  then show "checkCPUAvailable h core1 m1 = Some (False, m1)"
    by (simp add: checkCPUAvailable_def)
next
  assume a: "core_id \<notin> allocated_cpus m \<and> check_interval_ms m \<noteq> 0
      \<and> \<not> (check_duration_ms m = - (2 ^ 31) \<and> check_interval_ms m = - 1)"
  obtain b m' where l: "check_loop h core_id (sample_count m) m = (b, m')"
    by (cases "check_loop h core_id (sample_count m) m")
  from a have "checkCPUAvailable h core_id m = Some (check_loop h core_id (sample_count m) m)"
    by (auto simp: checkCPUAvailable_def sample_count_def Let_def max_def
             simp del: check_loop.simps)
  with l check_loop_samples [OF l]
  show "\<exists>b m'. checkCPUAvailable h core_id m = Some (b, m')
     \<and> ((b \<and> (\<forall>k < sample_count m. sample_ok h m core_id k)
            \<and> samples_taken m' = samples_taken m + sample_count m)
       \<or> (\<not> b \<and> (\<exists>j < sample_count m. \<not> sample_ok h m core_id j
                        \<and> (\<forall>k < j. sample_ok h m core_id k)
                        \<and> samples_taken m' = samples_taken m + Suc j)))"
    by simp
qed

text \<open>
  With a window of 1000 ms and an interval of 300 ms on an idle core, the check takes
  three samples and returns true; a check of a reserved core returns false at once.
\<close>

theorem checkCPUAvailable_samples_witness:
  "checkCPUAvailable example_host 0 sampling_monitor
     = Some (True, sampling_monitor\<lparr>samples_taken := 3\<rparr>)
   \<and> sample_count sampling_monitor = 3
   \<and> sample_ok example_host sampling_monitor 0 0
   \<and> sample_ok example_host sampling_monitor 0 1
   \<and> sample_ok example_host sampling_monitor 0 2
   \<and> 0 \<in> allocated_cpus (cpu_monitor example_reached)
   \<and> checkCPUAvailable example_host 0 (cpu_monitor example_reached)
       = Some (False, cpu_monitor example_reached)"
proof -
  have c: "checkCPUAvailable example_host 0 sampling_monitor
     = Some (True, sampling_monitor\<lparr>samples_taken := 3\<rparr>)"
    by code_simp
  have n: "sample_count sampling_monitor = 3"
    by (simp add: sample_count_def sampling_monitor_def)
  have r: "0 \<in> allocated_cpus (cpu_monitor example_reached)"
    by (simp add: example_reached_def)
  have p: "0 \<notin> allocated_cpus sampling_monitor \<and> check_interval_ms sampling_monitor \<noteq> 0
    \<and> \<not> (check_duration_ms sampling_monitor = - (2 ^ 31)
          \<and> check_interval_ms sampling_monitor = - 1)"
    by (simp add: sampling_monitor_def)
  from checkCPUAvailable_samples [of 0 "cpu_monitor example_reached" example_host 0
      sampling_monitor] c n r p
  show ?thesis by auto
qed

text \<open>
  C4 as stated fails: the number of samples is not the quotient rounded up. With a window
  of 1000 ms and an interval of 300 ms the check of an idle core takes 3 samples, and the
  quotient rounded up is 4.
\<close>

theorem checkCPUAvailable_not_ceiling:
  "checkCPUAvailable example_host 0 sampling_monitor
     = Some (True, sampling_monitor\<lparr>samples_taken := 3\<rparr>)
   \<and> samples_taken sampling_monitor = 0
   \<and> check_duration_ms sampling_monitor = 1000 \<and> check_interval_ms sampling_monitor = 300
   \<and> nat \<lceil>(1000 :: real) / 300\<rceil> = 4"
proof -
  have "checkCPUAvailable example_host 0 sampling_monitor
     = Some (True, sampling_monitor\<lparr>samples_taken := 3\<rparr>)"
    by code_simp
  moreover have "\<lceil>(1000 :: real) / 300\<rceil> = 4" by (simp add: ceiling_eq_iff)
  ultimately show ?thesis by (simp add: sampling_monitor_def)
qed

section \<open>Devices missing from the snapshot\<close>

text \<open>
  C5. The tool reports device 0 only, on a monitor configured for two devices, with
  nothing reserved. \<open>isGPUBusy\<close> treats the missing device 1 as busy, as the claim
  requires; \<open>getAvailableGPUs\<close> lists it as available, and a counted request for two GPUs
  is granted devices 0 and 1.
\<close>

theorem missing_gpu_reported_available:
  "fst (queryGPUs one_row_host (gpu_monitor example_monitor))
     = [\<lparr>device_id = 0, memory_used_mb = 100, memory_total_mb = 16384,
         is_busy = False, is_allocated = False\<rparr>]
   \<and> fst (getAvailableGPUs one_row_host (gpu_monitor example_monitor)) = [0, 1]
   \<and> fst (isGPUBusy one_row_host 1 (gpu_monitor example_monitor)) = True
   \<and> map_option fst (allocate one_row_host 0 2 [] [] example_monitor)
       = Some (Some \<lparr>cpus = [], gpus = [0, 1]\<rparr>)"
  by code_simp

text \<open>When the tool gives no output, every configured device is reported busy.\<close>

lemma queryGPUs_no_output:
  assumes "\<not> gpu_mock_mode gm" "nvidia_smi h (smi_calls gm) = NoOutput"
  shows "map device_id (fst (queryGPUs h gm)) = map int [0..<nat (total_gpus gm)]
       \<and> list_all is_busy (fst (queryGPUs h gm))
       \<and> fst (getAvailableGPUs h gm) = []"
proof -
  let ?q = "map (\<lambda>i. \<lparr>device_id = i, memory_used_mb = memory_threshold_mb gm + 1,
                       memory_total_mb = 0, is_busy = True,
                       is_allocated = (i \<in> allocated_gpus gm)\<rparr>)
                (map int [0..<nat (total_gpus gm)])"
  from assms have q: "queryGPUs h gm = (?q, gm\<lparr>smi_calls := Suc (smi_calls gm)\<rparr>)"
    by (simp add: queryGPUs_def executeNvidiaSmi_def)
  have busy: "is_busy gpu" if "gpu \<in> set ?q" for gpu
    using that by auto
  have "\<not> (case find (\<lambda>gpu. device_id gpu = i) ?q of
              Some gpu \<Rightarrow> \<not> is_busy gpu \<and> \<not> is_allocated gpu
            | None \<Rightarrow> i \<notin> A)"
    if i: "i \<in> set (map int [0..<nat (total_gpus gm)])" for i A
  proof (cases "find (\<lambda>gpu. device_id gpu = i) ?q")
    case None
    then have "\<not> (\<exists>gpu \<in> set ?q. device_id gpu = i)" by (simp add: find_None_iff)
    moreover from i have "\<exists>gpu \<in> set ?q. device_id gpu = i" by auto
    ultimately show ?thesis by simp
  next
    case (Some gpu)
    from find_SomeD [OF Some] busy have "is_busy gpu" by blast
    with Some show ?thesis by simp
  qed
  then have "filter (\<lambda>i. case find (\<lambda>gpu. device_id gpu = i) ?q of
                      Some gpu \<Rightarrow> \<not> is_busy gpu \<and> \<not> is_allocated gpu
                    | None \<Rightarrow> i \<notin> A)
              (map int [0..<nat (total_gpus gm)]) = []" for A
    unfolding filter_empty_conv by blast
  with q show ?thesis
    by (simp add: getAvailableGPUs_def list_all_iff comp_def)
qed

section \<open>The child's environment\<close>

lemma digit_char_props:
  assumes "k < 10"
  shows "is_digit (''0123456789'' ! k) \<and> digit_value (''0123456789'' ! k) = k
         \<and> ''0123456789'' ! k \<noteq> CHR '','' \<and> ''0123456789'' ! k \<noteq> CHR ''-''"
proof -
  from assms have "k = 0 \<or> k = 1 \<or> k = 2 \<or> k = 3 \<or> k = 4 \<or> k = 5 \<or> k = 6 \<or> k = 7 \<or> k = 8 \<or> k = 9"
    by arith
  then show ?thesis
    by (elim disjE) (simp_all add: is_digit_def digit_value_def)
qed

lemma dec_value_snoc: "dec_value (s @ [c]) = 10 * dec_value s + digit_value c"
  by (simp add: dec_value_def)

lemma digits10_props:
  "digits10 n \<noteq> [] \<and> (\<forall>c \<in> set (digits10 n). is_digit c \<and> c \<noteq> CHR '','' \<and> c \<noteq> CHR ''-'')
   \<and> dec_value (digits10 n) = n"
proof (induction n rule: digits10.induct)
  case (1 n)
  show ?case
  proof (cases "n < 10")
    case True
    with digit_char_props [of n] show ?thesis
      by (simp add: digits10.simps [of n] dec_value_def)
  next
    case False
    with 1 digit_char_props [of "n mod 10"] show ?thesis
      by (simp add: digits10.simps [of n] dec_value_snoc)
  qed
qed

lemma to_string_nonempty: "to_string i \<noteq> []"
  using digits10_props by (simp add: to_string_def)

lemma to_string_no_comma: "CHR '','' \<notin> set (to_string i)"
  using digits10_props by (auto simp: to_string_def)

lemma read_int_to_string: "read_int (to_string i) = i"
proof (cases "i < 0")
  case True
  with digits10_props [of "nat (- i)"] show ?thesis
    by (simp add: to_string_def read_int_def)
next
  case False
  obtain c r where d: "digits10 (nat i) = c # r"
    using digits10_props [of "nat i"] by (cases "digits10 (nat i)") auto
  with digits10_props [of "nat i"] have "c \<noteq> CHR ''-''" "dec_value (c # r) = nat i"
    by auto
  with False d show ?thesis
    by (simp add: to_string_def read_int_def)
qed

lemma build_loop_pos:
  "i > 0 \<Longrightarrow> build_loop i xs res = res @ concat (map (\<lambda>y. '','' @ to_string y) xs)"
  by (induction xs arbitrary: i res) auto

lemma build_loop_zero:
  "build_loop 0 (x # xs) [] = to_string x @ concat (map (\<lambda>y. '','' @ to_string y) xs)"
  by (simp add: build_loop_pos)

lemma split_commas_no_comma:
  "CHR '','' \<notin> set s \<Longrightarrow> split_commas (s @ CHR '','' # t) = s # split_commas t"
  by (induction s) auto

lemma split_commas_single: "CHR '','' \<notin> set s \<Longrightarrow> split_commas s = [s]"
  by (induction s) auto

lemma split_commas_joined:
  "split_commas (to_string x @ concat (map (\<lambda>y. '','' @ to_string y) xs)) = map to_string (x # xs)"
proof (induction xs arbitrary: x)
  case Nil
  then show ?case by (simp add: split_commas_single to_string_no_comma)
next
  case (Cons y ys)
  from split_commas_no_comma [OF to_string_no_comma, of x "to_string y @ concat (map (\<lambda>y. '','' @ to_string y) ys)"]
    Cons [of y] show ?case by simp
qed

lemma read_list_build_loop: "read_list (build_loop 0 xs []) = xs"
proof (cases xs)
  case Nil
  then show ?thesis by (simp add: read_list_def)
next
  case (Cons x r)
  have "build_loop 0 (x # r) [] \<noteq> []"
    unfolding build_loop_zero using to_string_nonempty by simp
  moreover have "map (read_int \<circ> to_string) r = r"
    by (induction r) (simp_all add: read_int_to_string)
  ultimately show ?thesis using Cons split_commas_joined [of x r]
    by (simp add: read_list_def build_loop_zero read_int_to_string del: build_loop.simps)
qed

lemma build_loop_empty_iff: "build_loop 0 xs [] = [] \<longleftrightarrow> xs = []"
proof (cases xs)
  case Nil
  then show ?thesis by simp
next
  case (Cons x r)
  then show ?thesis using to_string_nonempty by (simp add: build_loop_zero del: build_loop.simps)
qed


lemma select_gpus_sorted:
  "sorted_wrt (<) (acc @ av) \<Longrightarrow> sorted_wrt (<) (select_gpus excl n av acc)"
  by (induction excl n av acc rule: select_gpus.induct) (auto simp: sorted_wrt_append)

lemma getAvailableGPUs_sorted:
  "getAvailableGPUs h gm = (av, gm') \<Longrightarrow> sorted_wrt (<) av"
  by (auto simp: getAvailableGPUs_def split_beta sorted_wrt_map intro!: sorted_wrt_filter)

lemma allocateGPUs_order:
  assumes "allocateGPUs h n sg rm = (gs, rm')"
  shows "(sg = [] \<longrightarrow> sorted_wrt (<) gs) \<and> (sg \<noteq> [] \<longrightarrow> gs = sg \<or> gs = [])"
proof (cases "sg = []")
  case True
  obtain av gm1 where g: "getAvailableGPUs h (gpu_monitor rm) = (av, gm1)"
    by (cases "getAvailableGPUs h (gpu_monitor rm)")
  from getAvailableGPUs_sorted [OF g] have "sorted_wrt (<) (select_gpus (excluded_gpus rm) n av [])"
    by (intro select_gpus_sorted) simp
  with assms True g show ?thesis
    by (auto simp: allocateGPUs_def Let_def split: if_splits)
next
  case False
  with assms show ?thesis
    by (auto simp: allocateGPUs_def Let_def split: if_splits prod.splits)
qed

lemma child_environment_base:
  assumes "allocate h nc ng sc sg rm = Some (Some r, rm')"
    and "env' = setupEnvironment (cpus r) (gpus r) env"
  shows "env' ''CUDA_VISIBLE_DEVICES'' = Some (buildGpuString (gpus r))
       \<and> env' ''MYQUEUE_GPUS'' = Some (buildGpuString (gpus r))
       \<and> env' ''MYQUEUE_CPUS'' = Some (buildCpuString (cpus r))
       \<and> read_list (buildGpuString (gpus r)) = gpus r
       \<and> read_list (buildCpuString (cpus r)) = cpus r
       \<and> (buildGpuString (gpus r) = [] \<longleftrightarrow> gpus r = [])
       \<and> (buildCpuString (cpus r) = [] \<longleftrightarrow> cpus r = [])
       \<and> (sg = [] \<longrightarrow> sorted_wrt (<) (gpus r))
       \<and> (sg \<noteq> [] \<longrightarrow> gpus r = sg)
       \<and> (sc \<noteq> [] \<longrightarrow> cpus r = sc)"
proof -
  have env: "env' ''CUDA_VISIBLE_DEVICES'' = Some (buildGpuString (gpus r))
       \<and> env' ''MYQUEUE_GPUS'' = Some (buildGpuString (gpus r))
       \<and> env' ''MYQUEUE_CPUS'' = Some (buildCpuString (cpus r))"
    by (simp add: assms(2) setupEnvironment_def setenv_def Let_def)
  have strs: "read_list (buildGpuString (gpus r)) = gpus r
       \<and> read_list (buildCpuString (cpus r)) = cpus r
       \<and> (buildGpuString (gpus r) = [] \<longleftrightarrow> gpus r = [])
       \<and> (buildCpuString (cpus r) = [] \<longleftrightarrow> cpus r = [])"
    by (simp add: buildGpuString_def buildCpuString_def read_list_build_loop build_loop_empty_iff)
  define gr where "gr = (if ng > 0 \<or> sg \<noteq> [] then allocateGPUs h ng sg rm else ([], rm))"
  obtain gs rm1 where gr: "gr = (gs, rm1)" by (cases gr)
  have go: "(sg = [] \<longrightarrow> sorted_wrt (<) gs) \<and> (sg \<noteq> [] \<longrightarrow> gs = sg \<or> gs = [])"
    using gr allocateGPUs_order [of h ng sg rm gs rm1] by (auto simp: gr_def split: if_splits)
  from assms(1) gr have g: "gpus r = gs"
    by (auto simp: allocate_def gr_def [symmetric] Let_def split: if_splits option.splits)
  from assms(1) gr have nofail: "sg \<noteq> [] \<longrightarrow> length gs = length sg"
    by (auto simp: allocate_def gr_def [symmetric] Let_def split: if_splits option.splits)
  from go g nofail have gord: "(sg = [] \<longrightarrow> sorted_wrt (<) (gpus r)) \<and> (sg \<noteq> [] \<longrightarrow> gpus r = sg)"
    by auto
  have cord: "sc \<noteq> [] \<longrightarrow> cpus r = sc"
  proof
    assume ne: "sc \<noteq> []"
    with assms(1) gr obtain cs rm2 where
      c: "allocateCPUs h nc (determineAffinityGroup gs) sc rm1 = Some (cs, rm2)"
      and r: "cpus r = cs" and len: "length cs = length sc"
      by (auto simp: allocate_def gr_def [symmetric] Let_def split: if_splits option.splits)
    from c ne len have "cs = sc"
      by (auto simp: allocateCPUs_def split: if_splits option.splits)
    with r show "cpus r = sc" by simp
  qed
  from env strs gord cord show ?thesis by simp
qed

lemma pick_order_mset: "length xs = n \<Longrightarrow> mset (pick_order n ds xs) = mset xs"
proof (induction n arbitrary: ds xs)
  case 0
  then show ?case by simp
next
  case (Suc n)
  define k where "k = (case ds of [] \<Rightarrow> 0 | d # _ \<Rightarrow> d mod length xs)"
  from Suc.prems have ne: "xs \<noteq> []" by auto
  with Suc.prems have k: "k < length xs" by (auto simp: k_def split: list.splits)
  with Suc.prems have len: "length (take k xs @ drop (Suc k) xs) = n" by simp
  have "mset xs = mset (take k xs @ xs ! k # drop (Suc k) xs)"
    using id_take_nth_drop [OF k] by simp
  also have "\<dots> = add_mset (xs ! k) (mset (take k xs @ drop (Suc k) xs))" by simp
  finally have "mset xs = add_mset (xs ! k) (mset (pick_order n (tl ds) (take k xs @ drop (Suc k) xs)))"
    using Suc.IH [OF len] by simp
  with ne show ?case by (simp add: k_def Let_def)
qed

lemma shuffle_mset: "mset (fst (shuffle cands rm)) = mset cands"
  by (simp add: shuffle_def pick_order_mset)

lemma try_candidates_subseq:
  "try_candidates h nc cands acc m = Some (acc', m') \<Longrightarrow>
     \<exists>new. acc' = acc @ new \<and> subseq new cands"
proof (induction cands arbitrary: acc m)
  case Nil
  then show ?case by simp
next
  case (Cons c cs)
  show ?case
  proof (cases "int (length acc) \<ge> nc")
    case True
    with Cons.prems show ?thesis by simp
  next
    case False
    with Cons.prems obtain b1 m1 where s: "checkCPUAvailable h c m = Some (b1, m1)"
      by (auto split: option.splits)
    show ?thesis
    proof (cases b1)
      case True
      with Cons.prems False s
      have "try_candidates h nc cs (acc @ [c]) (mon_allocateCPUs [c] m1) = Some (acc', m')"
        by simp
      from Cons.IH [OF this] obtain new where "acc' = (acc @ [c]) @ new" "subseq new cs"
        by blast
      then have "acc' = acc @ (c # new) \<and> subseq (c # new) (c # cs)" by simp
      then show ?thesis by blast
    next
      case b: False
      with Cons.prems False s
      have "try_candidates h nc cs acc m1 = Some (acc', m')" by simp
      from Cons.IH [OF this] obtain new where "acc' = acc @ new" "subseq new cs" by blast
      then have "acc' = acc @ new \<and> subseq new (c # cs)" by auto
      then show ?thesis by blast
    qed
  qed
qed

lemma try_candidates_length:
  "try_candidates h nc cands acc m = Some (acc', m') \<Longrightarrow> int (length acc) \<le> nc \<Longrightarrow>
     int (length acc') \<le> nc"
proof (induction cands arbitrary: acc m)
  case Nil
  then show ?case by simp
next
  case (Cons c cs)
  show ?case
  proof (cases "int (length acc) \<ge> nc")
    case True
    with Cons.prems show ?thesis by simp
  next
    case False
    with Cons.prems obtain b1 m1 where s: "checkCPUAvailable h c m = Some (b1, m1)"
      by (auto split: option.splits)
    from Cons.prems False s Cons.IH [of "acc @ [c]" "mon_allocateCPUs [c] m1"]
      Cons.IH [of acc m1]
    show ?thesis by (cases b1) auto
  qed
qed

lemma allocateGPUs_frame:
  "allocateGPUs h n sg rm = (gs, rm') \<Longrightarrow>
     excluded_cpus rm' = excluded_cpus rm \<and> rng rm' = rng rm"
  by (auto simp: allocateGPUs_def Let_def split: if_splits prod.splits)

lemma allocateCPUs_counted:
  assumes "allocateCPUs h nc grp [] rm = Some (cs, rm')"
  shows "subseq cs (fst (shuffle (filter (\<lambda>c. c \<notin> excluded_cpus rm)
                                   (getAvailableCPUs grp (cpu_monitor rm))) rm))
       \<and> (0 \<le> nc \<longrightarrow> int (length cs) \<le> nc)"
proof -
  define cands where "cands = filter (\<lambda>c. c \<notin> excluded_cpus rm)
                                 (getAvailableCPUs grp (cpu_monitor rm))"
  show ?thesis
  proof (cases "int (length cands) < nc")
    case True
    with assms show ?thesis by (auto simp: allocateCPUs_def cands_def Let_def)
  next
    case enough: False
    obtain sh rm1 where sh: "shuffle cands rm = (sh, rm1)" by (cases "shuffle cands rm")
    from assms enough sh obtain al m1 where
      t: "try_candidates h nc sh [] (cpu_monitor rm1) = Some (al, m1)"
      by (auto simp: allocateCPUs_def cands_def [symmetric] Let_def split: option.splits)
    from try_candidates_subseq [OF t] have sub: "subseq al sh" by simp
    from try_candidates_length [OF t] have len: "0 \<le> nc \<longrightarrow> int (length al) \<le> nc" by simp
    from assms enough sh t have "cs = [] \<or> cs = al"
      by (auto simp: allocateCPUs_def cands_def [symmetric] Let_def split: if_splits)
    with sub len sh show ?thesis
      unfolding cands_def [symmetric] by auto
  qed
qed

text \<open>
  C8, as the code has it. For every allocation that \<open>allocate\<close> returns, each of the three
  variables holds the decimal ids of the allocation, joined by commas, in the order of the
  allocation's list, and the empty string when the list is empty: reading the string back
  gives the list. The order is ascending for counted GPUs. For explicit GPUs and explicit
  CPUs it is the order of the request. For counted CPUs the list holds \<open>ncpu\<close> cores in the
  order in which they stand among the shuffled candidates, which are a rearrangement of
  the cores of the affinity group that are neither reserved nor excluded; without
  explicit CPUs and with no CPU asked for, the list is empty.
\<close>

theorem child_environment_lists:
  assumes "allocate h nc ng sc sg rm = Some (Some r, rm')"
    and "env' = setupEnvironment (cpus r) (gpus r) env"
    and "pool = filter (\<lambda>c. c \<notin> excluded_cpus rm)
                  (getAvailableCPUs (determineAffinityGroup (gpus r)) (cpu_monitor rm))"
  shows "env' ''CUDA_VISIBLE_DEVICES'' = Some (buildGpuString (gpus r))
       \<and> env' ''MYQUEUE_GPUS'' = Some (buildGpuString (gpus r))
       \<and> env' ''MYQUEUE_CPUS'' = Some (buildCpuString (cpus r))
       \<and> read_list (buildGpuString (gpus r)) = gpus r
       \<and> read_list (buildCpuString (cpus r)) = cpus r
       \<and> (buildGpuString (gpus r) = [] \<longleftrightarrow> gpus r = [])
       \<and> (buildCpuString (cpus r) = [] \<longleftrightarrow> cpus r = [])
       \<and> (sg = [] \<longrightarrow> sorted_wrt (<) (gpus r))
       \<and> (sg \<noteq> [] \<longrightarrow> gpus r = sg)
       \<and> (sc \<noteq> [] \<longrightarrow> cpus r = sc)
       \<and> (sc = [] \<and> 0 < nc \<longrightarrow>
            subseq (cpus r) (fst (shuffle pool rm))
            \<and> mset (fst (shuffle pool rm)) = mset pool
            \<and> int (length (cpus r)) = nc)
       \<and> (sc = [] \<and> nc \<le> 0 \<longrightarrow> cpus r = [])"
proof -
  note base = child_environment_base [OF assms(1,2)]
  define gr where "gr = (if ng > 0 \<or> sg \<noteq> [] then allocateGPUs h ng sg rm else ([], rm))"
  obtain gs rm1 where gr: "gr = (gs, rm1)" by (cases gr)
  have frame: "cpu_monitor rm1 = cpu_monitor rm \<and> excluded_cpus rm1 = excluded_cpus rm
      \<and> rng rm1 = rng rm"
    using gr allocateGPUs_sets [of h ng sg rm gs rm1] allocateGPUs_frame [of h ng sg rm gs rm1]
    by (auto simp: gr_def split: if_splits)
  from assms(1) gr have g: "gpus r = gs"
    by (auto simp: allocate_def gr_def [symmetric] Let_def split: if_splits option.splits)
  have counted: "sc = [] \<and> 0 < nc \<longrightarrow>
            subseq (cpus r) (fst (shuffle pool rm))
            \<and> mset (fst (shuffle pool rm)) = mset pool
            \<and> int (length (cpus r)) = nc"
  proof
    assume a: "sc = [] \<and> 0 < nc"
    with assms(1) gr obtain cs rm2 where
      c: "allocateCPUs h nc (determineAffinityGroup gs) [] rm1 = Some (cs, rm2)"
      and r: "cpus r = cs" and len: "\<not> int (length cs) < nc"
      by (auto simp: allocate_def gr_def [symmetric] Let_def split: if_splits option.splits)
    have "fst (shuffle pool rm1) = fst (shuffle pool rm)"
      using frame by (simp add: shuffle_def)
    with allocateCPUs_counted [OF c] frame g assms(3) a r len
    show "subseq (cpus r) (fst (shuffle pool rm))
            \<and> mset (fst (shuffle pool rm)) = mset pool
            \<and> int (length (cpus r)) = nc"
      by (auto simp: shuffle_mset)
  qed
  have none: "sc = [] \<and> nc \<le> 0 \<longrightarrow> cpus r = []"
    using assms(1) gr
    by (auto simp: allocate_def gr_def [symmetric] Let_def split: if_splits option.splits)
  from base counted none show ?thesis by simp
qed

text \<open>
  Three requests on the example monitor, whose generator draws core 1 first: two counted
  CPUs and two counted GPUs (the lists are 1,0 and 0,1), the explicit sets 1,0 and 1,0,
  and one GPU without any CPU, where \<open>MYQUEUE_CPUS\<close> is the empty string.
\<close>

theorem child_environment_lists_witness:
  "map_option fst (allocate example_host 2 2 [] [] example_monitor)
     = Some (Some \<lparr>cpus = [1, 0], gpus = [0, 1]\<rparr>)
   \<and> setupEnvironment [1, 0] [0, 1] Map.empty ''CUDA_VISIBLE_DEVICES'' = Some ''0,1''
   \<and> setupEnvironment [1, 0] [0, 1] Map.empty ''MYQUEUE_GPUS'' = Some ''0,1''
   \<and> setupEnvironment [1, 0] [0, 1] Map.empty ''MYQUEUE_CPUS'' = Some ''1,0''
   \<and> read_list ''0,1'' = [0, 1] \<and> read_list ''1,0'' = [1, 0]
   \<and> sorted_wrt (<) [0, 1 :: int]
   \<and> fst (shuffle [0, 1] example_monitor) = [1, 0]
   \<and> subseq [1, 0 :: int] [1, 0]
   \<and> map_option fst (allocate example_host 0 0 [1, 0] [1, 0] example_monitor)
     = Some (Some \<lparr>cpus = [1, 0], gpus = [1, 0]\<rparr>)
   \<and> setupEnvironment [1, 0] [1, 0] Map.empty ''CUDA_VISIBLE_DEVICES'' = Some ''1,0''
   \<and> map_option fst (allocate example_host 0 1 [] [] example_monitor)
     = Some (Some \<lparr>cpus = [], gpus = [0]\<rparr>)
   \<and> setupEnvironment [] [0] Map.empty ''MYQUEUE_CPUS'' = Some []"
proof -
  have a1: "allocate example_host 2 2 [] [] example_monitor
      = Some (Some \<lparr>cpus = [1, 0], gpus = [0, 1]\<rparr>,
              snd (the (allocate example_host 2 2 [] [] example_monitor)))"
    by code_simp
  have a2: "allocate example_host 0 0 [1, 0] [1, 0] example_monitor
      = Some (Some \<lparr>cpus = [1, 0], gpus = [1, 0]\<rparr>,
              snd (the (allocate example_host 0 0 [1, 0] [1, 0] example_monitor)))"
    by code_simp
  have a3: "allocate example_host 0 1 [] [] example_monitor
      = Some (Some \<lparr>cpus = [], gpus = [0]\<rparr>,
              snd (the (allocate example_host 0 1 [] [] example_monitor)))"
    by code_simp
  have s: "buildGpuString [0, 1] = ''0,1''" "buildCpuString [1, 0] = ''1,0''"
    "buildGpuString [1, 0] = ''1,0''" "buildCpuString [] = []" "buildGpuString [0] = ''0''"
    by code_simp+
  have p: "filter (\<lambda>c. c \<notin> excluded_cpus example_monitor)
             (getAvailableCPUs (determineAffinityGroup [0, 1]) (cpu_monitor example_monitor))
           = [0, 1]"
    "fst (shuffle [0, 1] example_monitor) = [1, 0]"
    by code_simp+
  have t1: "setupEnvironment [1, 0] [0, 1] Map.empty ''CUDA_VISIBLE_DEVICES'' = Some ''0,1''
      \<and> setupEnvironment [1, 0] [0, 1] Map.empty ''MYQUEUE_GPUS'' = Some ''0,1''
      \<and> setupEnvironment [1, 0] [0, 1] Map.empty ''MYQUEUE_CPUS'' = Some ''1,0''
      \<and> read_list ''0,1'' = [0, 1] \<and> read_list ''1,0'' = [1, 0]
      \<and> sorted_wrt (<) [0, 1 :: int] \<and> subseq [1, 0 :: int] [1, 0]"
    using child_environment_lists [OF a1 refl refl, of Map.empty] s p by simp
  have t2: "setupEnvironment [1, 0] [1, 0] Map.empty ''CUDA_VISIBLE_DEVICES'' = Some ''1,0''"
    using child_environment_lists [OF a2 refl refl, of Map.empty] s by simp
  have t3: "setupEnvironment [] [0] Map.empty ''MYQUEUE_CPUS'' = Some []"
    using child_environment_lists [OF a3 refl refl, of Map.empty] s by simp
  from a1 a2 a3 have m: "map_option fst (allocate example_host 2 2 [] [] example_monitor)
     = Some (Some \<lparr>cpus = [1, 0], gpus = [0, 1]\<rparr>)"
    "map_option fst (allocate example_host 0 0 [1, 0] [1, 0] example_monitor)
     = Some (Some \<lparr>cpus = [1, 0], gpus = [1, 0]\<rparr>)"
    "map_option fst (allocate example_host 0 1 [] [] example_monitor)
     = Some (Some \<lparr>cpus = [], gpus = [0]\<rparr>)"
    by (metis option.simps(9) fst_conv)+
  from t1 t2 t3 m p show ?thesis by simp
qed

text \<open>
  C8 as stated fails: a counted request for two CPUs, with the generator drawing core 1
  first, is granted the cores in the order 1, 0, and \<open>MYQUEUE_CPUS\<close> is \<open>1,0\<close>.
\<close>

theorem environment_not_ascending:
  "map_option fst (allocate example_host 2 0 [] [] example_monitor)
     = Some (Some \<lparr>cpus = [1, 0], gpus = []\<rparr>)
   \<and> setupEnvironment [1, 0] [] Map.empty ''MYQUEUE_CPUS'' = Some ''1,0''
   \<and> \<not> sorted [1, 0 :: int]"
  by code_simp


section \<open>parseIdRange\<close>



lemma stoull_no_digit:
  assumes "\<not> (\<exists>c \<in> set s. is_digit c)"
  shows "stoull s = Inl invalid_argument"
proof -
  let ?s1 = "dropWhile isspace s"
  let ?p = "case ?s1 of
              [] \<Rightarrow> (False, [])
            | c # r \<Rightarrow> if c = CHR ''-'' then (True, r)
                       else if c = CHR ''+'' then (False, r)
                       else (False, ?s1)"
  have "set ?s1 \<subseteq> set s" by (rule set_dropWhileD [THEN subsetI])
  moreover have "set (snd ?p) \<subseteq> set ?s1" by (auto split: list.splits)
  ultimately have "\<not> (\<exists>c \<in> set (snd ?p). is_digit c)" using assms by blast
  then have "takeWhile is_digit (snd ?p) = []" by (cases "snd ?p") auto
  then show ?thesis
    by (simp add: stoull_def Let_def split_beta)
qed


















section \<open>The supervise path\<close>

lemma map_of_map_assign: "map_of (map_assign k v m) = (map_of m)(k \<mapsto> v)"
  by (induction m) (auto simp: fun_eq_iff)

lemma getTask_setTaskCompleted:
  "getTask (snd (setTaskCompleted i code now q)) j =
     (if j = i then
        (case getTask q i of
           None \<Rightarrow> None
         | Some t \<Rightarrow> if status t = RUNNING
                     then Some (t\<lparr>status := COMPLETED, exit_code := code, end_time := Some now\<rparr>)
                     else Some t)
      else getTask q j)"
  by (auto simp: getTask_def setTaskCompleted_def map_of_map_assign split: option.splits)

lemma queue_handleTaskCompletion:
  "queue (handleTaskCompletion i code now s) =
     (case getTask (queue s) i of
        None \<Rightarrow> queue s
      | Some t \<Rightarrow> snd (setTaskCompleted i code now (queue s)))"
  by (auto simp: handleTaskCompletion_def save_def notifyStateChange_def Let_def
           split: option.splits)

lemma getTask_handleTaskCompletion:
  "getTask (queue (handleTaskCompletion i code now s)) j =
     (if j = i then
        (case getTask (queue s) i of
           None \<Rightarrow> None
         | Some t \<Rightarrow> if status t = RUNNING
                     then Some (t\<lparr>status := COMPLETED, exit_code := code, end_time := Some now\<rparr>)
                     else Some t)
      else getTask (queue s) j)"
  by (simp add: queue_handleTaskCompletion getTask_setTaskCompleted split: option.splits)

lemma only_completes_refl: "only_completes s s"
  by (simp add: only_completes_def)

lemma only_completes_trans:
  "only_completes s s1 \<Longrightarrow> only_completes s1 s2 \<Longrightarrow> only_completes s s2"
  unfolding only_completes_def by (metis (no_types, opaque_lifting))

lemma only_completes_handle: "only_completes s (handleTaskCompletion i code now s)"
  by (auto simp: only_completes_def getTask_handleTaskCompletion split: if_splits option.splits)

lemma only_completes_check_task: "only_completes s (check_task sys now task s)"
proof -
  obtain st ex' where c: "checkStatus sys (pid task) (executor s) = (st, ex')"
    by (cases "checkStatus sys (pid task) (executor s)")
  have "only_completes s (s\<lparr>executor := ex'\<rparr>)" by (simp add: only_completes_def)
  from only_completes_trans [OF this only_completes_handle] only_completes_refl this c
  show ?thesis by (simp add: check_task_def Let_def)
qed

lemma only_completes_fold:
  "only_completes s (fold (check_task sys now) ts s)"
proof (induction ts arbitrary: s)
  case Nil
  then show ?case by (simp add: only_completes_refl)
next
  case (Cons t ts)
  from only_completes_trans [OF only_completes_check_task Cons] show ?case by simp
qed

text \<open>
  C6. When the probe of a running task reports that its process is gone, the task becomes
  \<open>COMPLETED\<close> with the exit code of the probe, whatever this code is; the record differs
  from the running one in the status, the exit code and the end time only, so the exit
  code alone tells a failed job from a successful one. A whole pass over the running
  tasks changes no status except from \<open>RUNNING\<close> to \<open>COMPLETED\<close>, so it marks no task
  \<open>FAILED\<close>.
\<close>

theorem supervise_marks_completed:
  "(getTask (queue s) (task_id task) = Some t \<and> status t = RUNNING \<and> pid task > 0
      \<and> checkStatus sys (pid task) (executor s) = (st, ex') \<and> \<not> running st
    \<longrightarrow> getTask (queue (check_task sys now task s)) (task_id task)
          = Some (t\<lparr>status := COMPLETED, exit_code := ps_exit_code st, end_time := Some now\<rparr>))
 \<and> (getTask (queue (checkRunningTasks sys now s)) j = Some t'
    \<longrightarrow> (\<exists>t0. getTask (queue s) j = Some t0
           \<and> (status t' = status t0 \<or> (status t0 = RUNNING \<and> status t' = COMPLETED))))"
proof (intro conjI impI)
  assume "getTask (queue s) (task_id task) = Some t \<and> status t = RUNNING \<and> pid task > 0
      \<and> checkStatus sys (pid task) (executor s) = (st, ex') \<and> \<not> running st"
  then show "getTask (queue (check_task sys now task s)) (task_id task)
          = Some (t\<lparr>status := COMPLETED, exit_code := ps_exit_code st, end_time := Some now\<rparr>)"
    by (simp add: check_task_def getTask_handleTaskCompletion)
next
  assume a: "getTask (queue (checkRunningTasks sys now s)) j = Some t'"
  have "only_completes s (checkRunningTasks sys now s)"
    unfolding checkRunningTasks_def by (rule only_completes_fold)
  with a show "\<exists>t0. getTask (queue s) j = Some t0
           \<and> (status t' = status t0 \<or> (status t0 = RUNNING \<and> status t' = COMPLETED))"
    unfolding only_completes_def by blast
qed

text \<open>
  A store with a running task whose process has exited with code 3 and a task that had
  failed before: the first becomes \<open>COMPLETED\<close> with exit code 3, the second stays as it is.
\<close>

theorem supervise_marks_completed_witness:
  "getTask (queue two_task_core) (task_id example_task) = Some example_task
   \<and> status example_task = RUNNING \<and> pid example_task > 0
   \<and> \<not> running (fst (checkStatus exited_os (pid example_task) (executor two_task_core)))
   \<and> getTask (queue (check_task exited_os 300 example_task two_task_core)) 1
       = Some (example_task\<lparr>status := COMPLETED, exit_code := 3, end_time := Some 300\<rparr>)
   \<and> getTask (queue (checkRunningTasks exited_os 300 two_task_core)) 1
       = Some (example_task\<lparr>status := COMPLETED, exit_code := 3, end_time := Some 300\<rparr>)
   \<and> getTask (queue (checkRunningTasks exited_os 300 two_task_core)) 2 = Some failed_task"
proof -
  have h: "getTask (queue two_task_core) (task_id example_task) = Some example_task
      \<and> status example_task = RUNNING \<and> pid example_task > 0
      \<and> checkStatus exited_os (pid example_task) (executor two_task_core)
          = (\<lparr>running = False, ps_exit_code = 3, signaled = False, signal_number = 0\<rparr>,
             \<lparr>wait_calls = 1, kill_calls = 0, calls = [Waitpid 4242]\<rparr>)
      \<and> \<not> running \<lparr>running = False, ps_exit_code = 3, signaled = False, signal_number = 0\<rparr>"
    by code_simp
  have f: "getTask (queue (checkRunningTasks exited_os 300 two_task_core)) 1
       = Some (example_task\<lparr>status := COMPLETED, exit_code := 3, end_time := Some 300\<rparr>)"
    "getTask (queue (checkRunningTasks exited_os 300 two_task_core)) 2 = Some failed_task"
    by code_simp+
  have id: "task_id example_task = 1" by (simp add: example_task_def)
  from supervise_marks_completed [where s = two_task_core and task = example_task
      and t = example_task and sys = exited_os
      and st = "\<lparr>running = False, ps_exit_code = 3, signaled = False, signal_number = 0\<rparr>"
      and ex' = "\<lparr>wait_calls = 1, kill_calls = 0, calls = [Waitpid 4242]\<rparr>"
      and now = 300 and j = 1
      and t' = "example_task\<lparr>status := COMPLETED, exit_code := 3, end_time := Some 300\<rparr>"]
    h f id
  show ?thesis by simp
qed

section \<open>Recovery at start\<close>

text \<open>
  C3. The store on disk holds one running task with CPU 0 and GPU 0, and its process is
  alive. After \<open>Server_start\<close> the task is still \<open>RUNNING\<close>, as the claim says, but the
  monitor is untouched: its reserved sets are empty, and the next request for one GPU is
  granted GPU 0, which the running task holds.
\<close>

theorem recovery_leaves_ledger_empty:
  "map_option status
     (getTask (queue (Server_start alive_os (Document 2 [example_task]) 200 example_core)) 1)
     = Some RUNNING
   \<and> monitor (Server_start alive_os (Document 2 [example_task]) 200 example_core) = example_monitor
   \<and> allocated_cpus (cpu_monitor example_monitor) = {}
   \<and> allocated_gpus (gpu_monitor example_monitor) = {}
   \<and> map_option fst (allocate example_host 0 1 [] []
        (monitor (Server_start alive_os (Document 2 [example_task]) 200 example_core)))
       = Some (Some \<lparr>cpus = [], gpus = [0]\<rparr>)"
  by code_simp

text \<open>In every case the recovery leaves the monitor as it was.\<close>

lemma Server_start_monitor: "monitor (Server_start sys file now s) = monitor s"
proof -
  have "monitor (fold (recover_task sys now) ts s1) = monitor s1" for ts s1
    by (induction ts arbitrary: s1) (simp_all add: recover_task_def split_beta Let_def)
  then show ?thesis by (simp add: Server_start_def Let_def)
qed

section \<open>Manual termination\<close>

text \<open>
  C7. \<open>terminateTask\<close> is called with \<open>force = True\<close> on a running task whose process
  is 4242. The first signal sent is \<open>SIGTERM\<close> to the process group, not \<open>SIGKILL\<close>; the
  process dies of it at the second poll.
\<close>

theorem terminate_ignores_force:
  "fst (terminateTask dying_os 1 True 300 running_core) = True
   \<and> calls (executor (snd (terminateTask dying_os 1 True 300 running_core)))
       = [Kill (- 4242) SIGTERM, Waitpid 4242, Usleep 100000, Waitpid 4242]"
  by code_simp

text \<open>
  The task of this call is running and has a process, so the call is not refused, and
  the first system call of the executor is the \<open>SIGTERM\<close>.
\<close>

theorem terminate_ignores_force_witness:
  "getTask (queue running_core) 1 = Some example_task
   \<and> status example_task = RUNNING \<and> 0 < pid example_task
   \<and> hd (calls (executor (snd (terminateTask dying_os 1 True 300 running_core))))
       = Kill (- 4242) SIGTERM"
proof -
  have "getTask (queue running_core) 1 = Some example_task
      \<and> status example_task = RUNNING \<and> 0 < pid example_task"
    by code_simp
  with terminate_ignores_force show ?thesis by simp
qed

text \<open>The flag has no effect at all, and a task that is not running is refused.\<close>

lemma terminateTask_force_unused:
  "terminateTask sys i True now s = terminateTask sys i False now s"
  by (simp add: terminateTask_def)

lemma terminateTask_not_running:
  "getTask (queue s) i = Some task \<Longrightarrow> status task \<noteq> RUNNING \<Longrightarrow>
     terminateTask sys i force now s = (False, s)"
  by (simp add: terminateTask_def)

end
